theory Spec2Isabelle
  imports Complex_Main
begin

section \<open>Multi-stream variant (src/Readme.txt, the MU-MIMO program)\<close>

text \<open>
  The C++ type \<open>double\<close> is modelled by \<^typ>\<open>real\<close>: arithmetic is exact, rounding is
  not modelled. The C++ type \<open>int\<close> is modelled by \<^typ>\<open>int\<close>; no counter of the
  program comes near the 32-bit range on the inputs considered, and where a product
  could leave it the theorem says so.
\<close>

subsection \<open>Constants\<close>

definition ms_BANDWIDTH_MHZ :: real where "ms_BANDWIDTH_MHZ = 20"
definition ms_MODULATION_BITS :: real where "ms_MODULATION_BITS = 8"
definition ms_CODING_RATE :: real where "ms_CODING_RATE = 5 / 6"
definition ms_PACKET_SIZE_BYTES :: int where "ms_PACKET_SIZE_BYTES = 1024"
definition ms_MAX_BACKOFF :: int where "ms_MAX_BACKOFF = 10"
definition ms_MAX_STREAMS :: int where "ms_MAX_STREAMS = 4"
definition ms_MAX_SIMULATION_TIME :: int where "ms_MAX_SIMULATION_TIME = 5000"
definition ms_MIN_POWER :: real where "ms_MIN_POWER = 1 / 2"
definition ms_MAX_POWER :: real where "ms_MAX_POWER = 3 / 2"
definition ms_MAX_DISTANCE :: real where "ms_MAX_DISTANCE = 1000"

definition ms_calculateTransmissionRate :: "int \<Rightarrow> real \<Rightarrow> real" where
  "ms_calculateTransmissionRate numStreams powerFactor =
     (let adjustedBandwidth = ms_BANDWIDTH_MHZ / real_of_int numStreams
      in adjustedBandwidth * 1000000 * ms_MODULATION_BITS * ms_CODING_RATE * powerFactor)"

subsection \<open>Packet, FrequencyChannel, User\<close>

record ms_Packet =
  ms_packetID :: int
  ms_arrivalTimestamp :: real
  ms_transmissionStart :: real
  ms_transmissionEnd :: real

definition ms_mkPacket :: "int \<Rightarrow> real \<Rightarrow> ms_Packet" where
  "ms_mkPacket pid arrivalTime =
     \<lparr>ms_packetID = pid, ms_arrivalTimestamp = arrivalTime,
      ms_transmissionStart = 0, ms_transmissionEnd = 0\<rparr>"

text \<open>\<open>FrequencyChannel\<close> is its vector \<open>occupiedStreams\<close>.\<close>

type_synonym ms_FrequencyChannel = "bool list"

definition ms_mkFrequencyChannel :: "int \<Rightarrow> ms_FrequencyChannel" where
  "ms_mkFrequencyChannel streamCount = replicate (nat streamCount) False"

fun ms_findFrom :: "bool list \<Rightarrow> int \<Rightarrow> int" where
  "ms_findFrom [] i = - 1"
| "ms_findFrom (b # bs) i = (if \<not> b then i else ms_findFrom bs (i + 1))"

definition ms_findAvailableStream :: "ms_FrequencyChannel \<Rightarrow> int" where
  "ms_findAvailableStream occupiedStreams = ms_findFrom occupiedStreams 0"

definition ms_reserveStream :: "ms_FrequencyChannel \<Rightarrow> int \<Rightarrow> ms_FrequencyChannel" where
  "ms_reserveStream occupiedStreams streamIdx = occupiedStreams[nat streamIdx := True]"

definition ms_releaseStream :: "ms_FrequencyChannel \<Rightarrow> int \<Rightarrow> ms_FrequencyChannel" where
  "ms_releaseStream occupiedStreams streamIdx = occupiedStreams[nat streamIdx := False]"

record ms_User =
  ms_userID :: int
  ms_distanceFromAP :: real
  ms_packetQueue :: "ms_Packet list"

definition ms_mkUser :: "int \<Rightarrow> real \<Rightarrow> ms_User" where
  "ms_mkUser uid distance =
     \<lparr>ms_userID = uid, ms_distanceFromAP = distance, ms_packetQueue = []\<rparr>"

text \<open>The body of the \<open>for\<close> loop of \<open>generatePackets\<close>, then the loop over \<open>i = 0 .. packetCount - 1\<close>.\<close>

definition ms_emplace :: "real \<Rightarrow> int \<Rightarrow> ms_User \<Rightarrow> ms_User" where
  "ms_emplace currentTimestamp i u =
     u\<lparr>ms_packetQueue := ms_packetQueue u @ [ms_mkPacket i (currentTimestamp + real_of_int i * (1 / 100))]\<rparr>"

definition ms_generatePackets :: "int \<Rightarrow> real \<Rightarrow> ms_User \<Rightarrow> ms_User" where
  "ms_generatePackets packetCount currentTimestamp u =
     fold (ms_emplace currentTimestamp) (map int [0 ..< nat packetCount]) u"

definition ms_hasPackets :: "ms_User \<Rightarrow> bool" where
  "ms_hasPackets u = (ms_packetQueue u \<noteq> [])"

definition ms_removePacket :: "ms_User \<Rightarrow> ms_User" where
  "ms_removePacket u = u\<lparr>ms_packetQueue := tl (ms_packetQueue u)\<rparr>"

definition ms_calculatePowerFactor :: "ms_User \<Rightarrow> real" where
  "ms_calculatePowerFactor u =
     ms_MAX_POWER - (ms_distanceFromAP u / ms_MAX_DISTANCE) * (ms_MAX_POWER - ms_MIN_POWER)"

subsection \<open>AccessPoint::sendPacket\<close>

datatype ms_error = NoAvailableStreams | SimulationExceeded | NoPacketsTransmitted

text \<open>
  \<open>sendPacket\<close> updates the packet, the clock (passed by reference) and the channel, and
  returns whether the packet was transmitted. The exception thrown for \<open>streamIdx == -1\<close>
  is caught inside the function, which then returns \<open>false\<close>. The call to \<open>sleep_for\<close>
  has no effect on the simulated state. With a rate of zero the C++ division gives an
  infinity, HOL's gives 0: theorems about the duration assume a positive rate.
\<close>

definition ms_sendPacket ::
  "ms_FrequencyChannel \<Rightarrow> ms_Packet \<Rightarrow> real \<Rightarrow> real \<Rightarrow> int
     \<Rightarrow> bool \<times> ms_FrequencyChannel \<times> ms_Packet \<times> real" where
  "ms_sendPacket frequencyChannel pkt currentTimestamp transmissionRate streamIdx =
     (if streamIdx = - 1 then (False, frequencyChannel, pkt, currentTimestamp)
      else
        let ch1 = ms_reserveStream frequencyChannel streamIdx;
            pkt1 = pkt\<lparr>ms_transmissionStart := currentTimestamp\<rparr>;
            timeToTransmit = real_of_int (ms_PACKET_SIZE_BYTES * 8) / transmissionRate;
            pkt2 = pkt1\<lparr>ms_transmissionEnd := currentTimestamp + timeToTransmit\<rparr>
        in if ms_transmissionEnd pkt2 > real_of_int ms_MAX_SIMULATION_TIME
           then (False, ms_releaseStream ch1 streamIdx, pkt2, currentTimestamp)
           else (True, ms_releaseStream ch1 streamIdx, pkt2, ms_transmissionEnd pkt2))"

subsection \<open>WiFiSimulation\<close>

text \<open>
  The fields of the class, then the locals of \<open>runSimulation\<close> (\<open>currentTime\<close>,
  \<open>allQueuesEmpty\<close>). \<open>ms_entropyUsed\<close> counts the draws taken from the random device so
  far. \<open>ms_sentLog\<close> is a history variable, not a program variable: it keeps each packet
  for which \<open>sendPacket\<close> returned \<open>true\<close>, as stamped, because the program destroys the
  packet right after.
\<close>

record ms_WiFiSimulation =
  ms_users :: "ms_User list"
  ms_channel :: ms_FrequencyChannel
  ms_simulationTime :: real
  ms_transmittedPackets :: int
  ms_droppedPackets :: int
  ms_totalLatency :: real
  ms_maxPacketLatency :: real
  ms_currentTime :: real
  ms_allQueuesEmpty :: bool
  ms_entropyUsed :: nat
  ms_sentLog :: "ms_Packet list"

text \<open>
  \<open>randomBackoffTime\<close> seeds a fresh generator from \<open>random_device\<close> at every call and
  draws from \<open>uniform_int_distribution(1, MAX_BACKOFF)\<close>. The device is an input of the
  model: a stream \<open>rd\<close> of raw values, each mapped into the distribution's range.
\<close>

definition ms_randomBackoffTime :: "nat \<Rightarrow> real" where
  "ms_randomBackoffTime raw = real_of_int (1 + int raw mod ms_MAX_BACKOFF) / 1000"

text \<open>
  The inner loop \<open>while ((streamIdx = channel.findAvailableStream()) == -1)\<close>. The
  result is \<open>Inl\<close> when the loop throws, with the number of draws used and the clock at
  that moment, and \<open>Inr\<close> with the stream found otherwise.
\<close>

function ms_awaitStream ::
  "(nat \<Rightarrow> nat) \<Rightarrow> ms_FrequencyChannel \<Rightarrow> nat \<Rightarrow> real \<Rightarrow> (nat \<times> real) + (int \<times> nat \<times> real)" where
  "ms_awaitStream rd channel k currentTime =
     (let streamIdx = ms_findAvailableStream channel in
      if streamIdx \<noteq> - 1 then Inr (streamIdx, k, currentTime)
      else
        let currentTime' = currentTime + ms_randomBackoffTime (rd k) in
        if currentTime' > real_of_int ms_MAX_SIMULATION_TIME then Inl (Suc k, currentTime')
        else ms_awaitStream rd channel (Suc k) currentTime')"
  by pat_completeness auto
termination
proof (relation "measure (\<lambda>(rd, channel, k, t). nat \<lfloor>(real_of_int ms_MAX_SIMULATION_TIME - t) * 1000\<rfloor>)")
  show "wf (measure (\<lambda>(rd, channel, k, t). nat \<lfloor>(real_of_int ms_MAX_SIMULATION_TIME - t) * 1000\<rfloor>))"
    by simp
next
  fix rd :: "nat \<Rightarrow> nat" and channel :: ms_FrequencyChannel and k :: nat
    and currentTime streamIdx' currentTime' :: real and streamIdx :: int
  assume a: "currentTime' = currentTime + ms_randomBackoffTime (rd k)"
    and b: "\<not> real_of_int ms_MAX_SIMULATION_TIME < currentTime'"
  have "1 \<le> 1 + int (rd k) mod ms_MAX_BACKOFF"
    by (simp add: ms_MAX_BACKOFF_def)
  then have "1 / 1000 \<le> ms_randomBackoffTime (rd k)"
    unfolding ms_randomBackoffTime_def by (simp add: divide_le_cancel)
  with a have c: "(real_of_int ms_MAX_SIMULATION_TIME - currentTime') * 1000 + 1
      \<le> (real_of_int ms_MAX_SIMULATION_TIME - currentTime) * 1000"
    by simp
  from b have d: "0 \<le> \<lfloor>(real_of_int ms_MAX_SIMULATION_TIME - currentTime') * 1000\<rfloor>"
    by simp
  from c have "\<lfloor>(real_of_int ms_MAX_SIMULATION_TIME - currentTime') * 1000 + 1\<rfloor>
      \<le> \<lfloor>(real_of_int ms_MAX_SIMULATION_TIME - currentTime) * 1000\<rfloor>"
    by (rule floor_mono)
  then have "\<lfloor>(real_of_int ms_MAX_SIMULATION_TIME - currentTime') * 1000\<rfloor>
      < \<lfloor>(real_of_int ms_MAX_SIMULATION_TIME - currentTime) * 1000\<rfloor>"
    by simp
  with d have "nat \<lfloor>(real_of_int ms_MAX_SIMULATION_TIME - currentTime') * 1000\<rfloor>
      < nat \<lfloor>(real_of_int ms_MAX_SIMULATION_TIME - currentTime) * 1000\<rfloor>"
    by linarith
  then show "((rd, channel, Suc k, currentTime'), (rd, channel, k, currentTime))
      \<in> measure (\<lambda>(rd, channel, k, t). nat \<lfloor>(real_of_int ms_MAX_SIMULATION_TIME - t) * 1000\<rfloor>)"
    by simp
qed

text \<open>
  The constructor: \<open>rands\<close> is the sequence of values that \<open>rand()\<close> returns, the
  \<open>i\<close>-th user's distance is \<open>rand() % 1001\<close>.
\<close>

definition ms_mkWiFiSimulation :: "(nat \<Rightarrow> nat) \<Rightarrow> int \<Rightarrow> ms_WiFiSimulation" where
  "ms_mkWiFiSimulation rands userCount =
     \<lparr>ms_users = map (\<lambda>i. ms_mkUser (int i) (real (rands i mod 1001))) [0 ..< nat userCount],
      ms_channel = ms_mkFrequencyChannel ms_MAX_STREAMS,
      ms_simulationTime = 0, ms_transmittedPackets = 0, ms_droppedPackets = 0,
      ms_totalLatency = 0, ms_maxPacketLatency = 0,
      ms_currentTime = 0, ms_allQueuesEmpty = True, ms_entropyUsed = 0, ms_sentLog = []\<rparr>"

text \<open>
  The body of \<open>for (auto& user : users)\<close> inside the \<open>while\<close> loop, for the user at
  index \<open>i\<close>. A throw of the inner loop leaves through \<open>Inl\<close> with the state at that
  moment.
\<close>

definition ms_serveUser ::
  "(nat \<Rightarrow> nat) \<Rightarrow> nat \<Rightarrow> ms_WiFiSimulation \<Rightarrow> (ms_error \<times> ms_WiFiSimulation) + ms_WiFiSimulation" where
  "ms_serveUser rd i st =
     (let user = ms_users st ! i in
      if ms_hasPackets user then
        let st1 = st\<lparr>ms_allQueuesEmpty := False\<rparr>;
            packet = hd (ms_packetQueue user)
        in case ms_awaitStream rd (ms_channel st1) (ms_entropyUsed st1) (ms_currentTime st1) of
             Inl (k, t) \<Rightarrow>
               Inl (SimulationExceeded, st1\<lparr>ms_currentTime := t, ms_entropyUsed := k\<rparr>)
           | Inr (streamIdx, k, t) \<Rightarrow>
               let powerFactor = ms_calculatePowerFactor user;
                   (transmissionSuccess, ch, packet', t') =
                     ms_sendPacket (ms_channel st1) packet t
                       (ms_calculateTransmissionRate ms_MAX_STREAMS powerFactor) streamIdx;
                   st2 = st1\<lparr>ms_channel := ch, ms_currentTime := t', ms_entropyUsed := k\<rparr>;
                   st3 =
                     (if transmissionSuccess then
                        let latency = ms_transmissionEnd packet' - ms_arrivalTimestamp packet';
                            st2' = st2\<lparr>ms_sentLog := ms_sentLog st2 @ [packet']\<rparr>
                        in if latency > 0 then
                             st2'\<lparr>ms_totalLatency := ms_totalLatency st2' + latency,
                                  ms_maxPacketLatency := max (ms_maxPacketLatency st2') latency,
                                  ms_transmittedPackets := ms_transmittedPackets st2' + 1\<rparr>
                           else st2'
                      else st2\<lparr>ms_droppedPackets := ms_droppedPackets st2 + 1\<rparr>)
               in Inr (st3\<lparr>ms_users := (ms_users st3)[i := ms_removePacket user]\<rparr>)
      else Inr st)"

fun ms_forUsers ::
  "(nat \<Rightarrow> nat) \<Rightarrow> nat list \<Rightarrow> ms_WiFiSimulation \<Rightarrow> (ms_error \<times> ms_WiFiSimulation) + ms_WiFiSimulation" where
  "ms_forUsers rd [] st = Inr st"
| "ms_forUsers rd (i # rest) st =
     (case ms_serveUser rd i st of
        Inl e \<Rightarrow> Inl e
      | Inr st' \<Rightarrow> ms_forUsers rd rest st')"

definition ms_queued :: "ms_WiFiSimulation \<Rightarrow> nat" where
  "ms_queued st = sum_list (map (\<lambda>u. length (ms_packetQueue u)) (ms_users st))"

text \<open>Serving the users never adds a packet, and removes one when it clears the flag.\<close>

declare ms_awaitStream.simps [simp del]

lemma sum_list_decrease:
  "i < length (xs::nat list) \<Longrightarrow> 0 < xs ! i \<Longrightarrow> sum_list (xs[i := xs ! i - 1]) < sum_list xs"
proof (induction xs arbitrary: i)
  case Nil
  then show ?case by simp
next
  case (Cons x xs)
  then show ?case by (cases i) auto
qed

lemma ms_queued_update:
  assumes "i < length us" "ms_packetQueue (us ! i) \<noteq> []"
  shows "sum_list (map (\<lambda>u. length (ms_packetQueue u)) (us[i := ms_removePacket (us ! i)]))
       < sum_list (map (\<lambda>u. length (ms_packetQueue u)) us)"
proof -
  let ?f = "\<lambda>u. length (ms_packetQueue u)"
  have a: "map ?f (us[i := ms_removePacket (us ! i)]) = (map ?f us)[i := map ?f us ! i - 1]"
    using assms(1) by (simp add: map_update ms_removePacket_def)
  have b: "0 < map ?f us ! i" using assms by simp
  show ?thesis
    unfolding a using assms(1) b by (intro sum_list_decrease) simp_all
qed

lemma ms_serveUser_idle:
  "\<not> ms_hasPackets (ms_users st ! i) \<Longrightarrow> ms_serveUser rd i st = Inr st"
  by (simp add: ms_serveUser_def)

lemma ms_serveUser_users:
  "ms_serveUser rd i st = Inr st' \<Longrightarrow> ms_hasPackets (ms_users st ! i) \<Longrightarrow>
     ms_users st' = (ms_users st)[i := ms_removePacket (ms_users st ! i)] \<and> \<not> ms_allQueuesEmpty st'"
  by (auto simp add: ms_serveUser_def Let_def split_def split: if_splits sum.splits)

lemma ms_serveUser_queued:
  assumes "ms_serveUser rd i st = Inr st'" "i < length (ms_users st)"
  shows "length (ms_users st') = length (ms_users st) \<and> ms_queued st' \<le> ms_queued st
       \<and> (ms_allQueuesEmpty st' \<longrightarrow> ms_allQueuesEmpty st)
       \<and> (ms_allQueuesEmpty st \<and> \<not> ms_allQueuesEmpty st' \<longrightarrow> ms_queued st' < ms_queued st)"
proof (cases "ms_hasPackets (ms_users st ! i)")
  case False
  with assms show ?thesis by (simp add: ms_serveUser_idle)
next
  case True
  then have ne: "ms_packetQueue (ms_users st ! i) \<noteq> []" by (simp add: ms_hasPackets_def)
  from ms_serveUser_users[OF assms(1) True] ms_queued_update[OF assms(2) ne] show ?thesis
    by (simp add: ms_queued_def)
qed

lemma ms_forUsers_queued:
  assumes "ms_forUsers rd is st = Inr st'" "\<forall>i \<in> set is. i < length (ms_users st)"
  shows "length (ms_users st') = length (ms_users st) \<and> ms_queued st' \<le> ms_queued st
       \<and> (ms_allQueuesEmpty st' \<longrightarrow> ms_allQueuesEmpty st)
       \<and> (ms_allQueuesEmpty st \<and> \<not> ms_allQueuesEmpty st' \<longrightarrow> ms_queued st' < ms_queued st)"
  using assms
proof (induction "is" arbitrary: st)
  case Nil
  then show ?case by simp
next
  case (Cons i rest)
  from Cons.prems(1) obtain st1 where s1: "ms_serveUser rd i st = Inr st1"
    and r: "ms_forUsers rd rest st1 = Inr st'"
    by (auto split: sum.splits)
  from Cons.prems(2) have i: "i < length (ms_users st)" by simp
  note a = ms_serveUser_queued[OF s1 i]
  from a Cons.prems(2) have "\<forall>j \<in> set rest. j < length (ms_users st1)" by simp
  from Cons.IH[OF r this] a show ?case by auto
qed

text \<open>
  The loop \<open>while (true)\<close> of \<open>runSimulation\<close>: one pass over the users, then the
  test \<open>allQueuesEmpty || currentTime > MAX_SIMULATION_TIME\<close>.
\<close>

function ms_whileLoop ::
  "(nat \<Rightarrow> nat) \<Rightarrow> ms_WiFiSimulation \<Rightarrow> (ms_error \<times> ms_WiFiSimulation) + ms_WiFiSimulation" where
  "ms_whileLoop rd st =
     (case ms_forUsers rd [0 ..< length (ms_users st)] (st\<lparr>ms_allQueuesEmpty := True\<rparr>) of
        Inl e \<Rightarrow> Inl e
      | Inr st' \<Rightarrow>
          if ms_allQueuesEmpty st' \<or> ms_currentTime st' > real_of_int ms_MAX_SIMULATION_TIME
          then Inr st'
          else ms_whileLoop rd st')"
  by pat_completeness auto
termination
proof (relation "measure (\<lambda>(rd, st). ms_queued st)")
  show "wf (measure (\<lambda>(rd, st). ms_queued st))" by simp
next
  fix rd :: "nat \<Rightarrow> nat" and st st' :: ms_WiFiSimulation
  assume run: "ms_forUsers rd [0 ..< length (ms_users st)] (st\<lparr>ms_allQueuesEmpty := True\<rparr>) = Inr st'"
    and go: "\<not> (ms_allQueuesEmpty st' \<or> real_of_int ms_MAX_SIMULATION_TIME < ms_currentTime st')"
  have "\<forall>i \<in> set [0 ..< length (ms_users st)]. i < length (ms_users (st\<lparr>ms_allQueuesEmpty := True\<rparr>))"
    by simp
  from ms_forUsers_queued[OF run this] go
  have "ms_queued st' < ms_queued (st\<lparr>ms_allQueuesEmpty := True\<rparr>)" by simp
  then show "((rd, st'), (rd, st)) \<in> measure (\<lambda>(rd, st). ms_queued st)"
    by (simp add: ms_queued_def)
qed

declare ms_whileLoop.simps [simp del]

text \<open>
  \<open>runSimulation\<close>: first the clock is set to 0 and every user generates its packets
  (\<open>ms_prepared\<close>), then the loop runs inside \<open>try\<close>. The parameter \<open>userCount\<close> is not
  used by the body. The \<open>catch\<close> block only prints, so after a throw the function goes
  on to \<open>simulationTime = currentTime\<close> with the state as the throw left it.
\<close>

definition ms_prepared :: "int \<Rightarrow> ms_WiFiSimulation \<Rightarrow> ms_WiFiSimulation" where
  "ms_prepared packetsPerUser st =
     (let st0 = st\<lparr>ms_currentTime := 0\<rparr>
      in st0\<lparr>ms_users := map (ms_generatePackets packetsPerUser (ms_currentTime st0)) (ms_users st0)\<rparr>)"

definition ms_runSimulation ::
  "(nat \<Rightarrow> nat) \<Rightarrow> int \<Rightarrow> int \<Rightarrow> ms_WiFiSimulation \<Rightarrow> ms_WiFiSimulation" where
  "ms_runSimulation rd userCount packetsPerUser st =
     (let st2 = (case ms_whileLoop rd (ms_prepared packetsPerUser st) of
                   Inl (ex, stE) \<Rightarrow> stE
                 | Inr st' \<Rightarrow> st')
      in st2\<lparr>ms_simulationTime := ms_currentTime st2\<rparr>)"

text \<open>
  \<open>displayResults\<close>: the values handed to \<open>cout\<close>, before formatting. \<open>Inl\<close> is the
  path through the \<open>catch\<close> block, which prints an error message and none of the metrics.
\<close>

record ms_Report =
  ms_shownThroughputMbps :: real
  ms_shownAverageLatencyMs :: real
  ms_shownMaximumLatencyMs :: real
  ms_shownDroppedPackets :: int

definition ms_throughput :: "ms_WiFiSimulation \<Rightarrow> real" where
  "ms_throughput st =
     real_of_int (ms_transmittedPackets st * ms_PACKET_SIZE_BYTES * 8) / ms_simulationTime st"

definition ms_displayResults :: "ms_WiFiSimulation \<Rightarrow> int \<Rightarrow> ms_error + ms_Report" where
  "ms_displayResults st userCount =
     (if ms_transmittedPackets st = 0 then Inl NoPacketsTransmitted
      else
        let throughput = ms_throughput st;
            avgLatency = (if ms_transmittedPackets st > 0
                          then ms_totalLatency st / real_of_int (ms_transmittedPackets st) else 0)
        in Inr \<lparr>ms_shownThroughputMbps =
                  (if userCount = 1 then (throughput / 1000000) / real_of_int userCount + 1
                   else if userCount = 10 then (throughput / 1000000) / real_of_int userCount + 3
                   else (throughput / 1000000) / real_of_int userCount + 2),
                ms_shownAverageLatencyMs = avgLatency * 1000,
                ms_shownMaximumLatencyMs = ms_maxPacketLatency st * 1000,
                ms_shownDroppedPackets = ms_droppedPackets st\<rparr>)"

text \<open>
  \<open>main\<close>: one simulation per entry of \<open>userCounts\<close>. \<open>off\<close> is the number of values
  already taken from \<open>rand()\<close>; \<open>rds n\<close> is what the random device delivers during the
  run for \<open>n\<close> users.
\<close>

fun ms_mainLoop ::
  "(nat \<Rightarrow> nat) \<Rightarrow> (int \<Rightarrow> nat \<Rightarrow> nat) \<Rightarrow> int \<Rightarrow> nat \<Rightarrow> int list \<Rightarrow> (ms_error + ms_Report) list" where
  "ms_mainLoop rands rds packetsPerUser off [] = []"
| "ms_mainLoop rands rds packetsPerUser off (userCount # rest) =
     (let simulation = ms_mkWiFiSimulation (\<lambda>i. rands (off + i)) userCount;
          simulation' = ms_runSimulation (rds userCount) userCount packetsPerUser simulation
      in ms_displayResults simulation' userCount
           # ms_mainLoop rands rds packetsPerUser (off + nat userCount) rest)"

definition ms_main :: "(nat \<Rightarrow> nat) \<Rightarrow> (int \<Rightarrow> nat \<Rightarrow> nat) \<Rightarrow> (ms_error + ms_Report) list" where
  "ms_main rands rds =
     (let userCounts = [1, 10, 100]; packetsPerUser = 10
      in ms_mainLoop rands rds packetsPerUser 0 userCounts)"

subsection \<open>Symbolic execution of the multi-stream variant\<close>

text \<open>
  \<open>ms_timeToTransmit\<close> is the local \<open>timeToTransmit\<close> of \<open>sendPacket\<close> for the rate that
  \<open>runSimulation\<close> passes: \<open>calculateTransmissionRate(MAX_STREAMS, powerFactor)\<close>.
\<close>


lemmas ms_consts = ms_BANDWIDTH_MHZ_def ms_MODULATION_BITS_def ms_CODING_RATE_def ms_PACKET_SIZE_BYTES_def
  ms_MAX_BACKOFF_def ms_MAX_STREAMS_def ms_MAX_SIMULATION_TIME_def ms_MIN_POWER_def ms_MAX_POWER_def ms_MAX_DISTANCE_def

definition ms_timeToTransmit :: "ms_User \<Rightarrow> real" where
  "ms_timeToTransmit u = real_of_int (ms_PACKET_SIZE_BYTES * 8)
      / ms_calculateTransmissionRate ms_MAX_STREAMS (ms_calculatePowerFactor u)"

lemma ms_awaitStream_free:
  "ms_findAvailableStream ch \<noteq> - 1 \<Longrightarrow> ms_awaitStream rd ch k t = Inr (ms_findAvailableStream ch, k, t)"
  by (subst ms_awaitStream.simps) (simp add: Let_def)

lemma ms_findFrom_range:
  "0 \<le> i \<Longrightarrow>
   ms_findFrom bs i = - 1 \<and> (\<forall>b \<in> set bs. b) \<or>
   i \<le> ms_findFrom bs i \<and> ms_findFrom bs i < i + int (length bs) \<and> \<not> bs ! nat (ms_findFrom bs i - i)"
proof (induction bs arbitrary: i)
  case Nil
  then show ?case by simp
next
  case (Cons b bs)
  show ?case
  proof (cases b)
    case False
    then show ?thesis by simp
  next
    case True
    let ?r = "ms_findFrom bs (i + 1)"
    from Cons.prems have "0 \<le> i + 1" by simp
    from Cons.IH[OF this] consider
        (none) "?r = - 1" "\<forall>b \<in> set bs. b"
      | (found) "i + 1 \<le> ?r" "?r < i + 1 + int (length bs)" "\<not> bs ! nat (?r - (i + 1))"
      by blast
    then show ?thesis
    proof cases
      case none
      with True show ?thesis by auto
    next
      case found
      from found(1) have "nat (?r - i) = Suc (nat (?r - (i + 1)))" by simp
      with found True show ?thesis by simp
    qed
  qed
qed

lemma ms_findAvailableStream_free:
  assumes "ms_findAvailableStream ch \<noteq> - 1"
  shows "0 \<le> ms_findAvailableStream ch \<and> nat (ms_findAvailableStream ch) < length ch
       \<and> \<not> ch ! nat (ms_findAvailableStream ch)"
  using ms_findFrom_range[of 0 ch] assms by (auto simp: ms_findAvailableStream_def)

lemma ms_reserve_release:
  assumes "ms_findAvailableStream ch \<noteq> - 1"
  shows "ms_releaseStream (ms_reserveStream ch (ms_findAvailableStream ch)) (ms_findAvailableStream ch) = ch"
proof -
  from ms_findAvailableStream_free[OF assms]
  have "ch[nat (ms_findAvailableStream ch) := False] = ch"
    by (metis list_update_id)
  then show ?thesis by (simp add: ms_releaseStream_def ms_reserveStream_def)
qed

lemma ms_sendPacket_free:
  assumes "ms_findAvailableStream ch \<noteq> - 1"
  shows "ms_sendPacket ch p t (ms_calculateTransmissionRate ms_MAX_STREAMS (ms_calculatePowerFactor u)) (ms_findAvailableStream ch)
     = (\<not> t + ms_timeToTransmit u > real_of_int ms_MAX_SIMULATION_TIME, ch,
        p\<lparr>ms_transmissionStart := t, ms_transmissionEnd := t + ms_timeToTransmit u\<rparr>,
        if t + ms_timeToTransmit u > real_of_int ms_MAX_SIMULATION_TIME then t else t + ms_timeToTransmit u)"
  using assms by (simp add: ms_sendPacket_def Let_def ms_reserve_release ms_timeToTransmit_def)


lemma ms_serveUser_drop:
  assumes "ms_findAvailableStream (ms_channel st) \<noteq> - 1"
    and "ms_packetQueue (ms_users st ! i) \<noteq> []"
    and "ms_currentTime st + ms_timeToTransmit (ms_users st ! i) > real_of_int ms_MAX_SIMULATION_TIME"
  shows "ms_serveUser rd i st =
     Inr (st\<lparr>ms_allQueuesEmpty := False, ms_droppedPackets := ms_droppedPackets st + 1,
             ms_users := (ms_users st)[i := ms_removePacket (ms_users st ! i)]\<rparr>)"
  using assms
  by (simp add: ms_serveUser_def ms_hasPackets_def ms_awaitStream_free ms_sendPacket_free Let_def)

lemma ms_serveUser_counted:
  assumes "ms_findAvailableStream (ms_channel st) \<noteq> - 1"
    and "ms_packetQueue (ms_users st ! i) \<noteq> []"
    and "\<not> ms_currentTime st + ms_timeToTransmit (ms_users st ! i) > real_of_int ms_MAX_SIMULATION_TIME"
    and "ms_currentTime st + ms_timeToTransmit (ms_users st ! i)
           - ms_arrivalTimestamp (hd (ms_packetQueue (ms_users st ! i))) > 0"
  shows "ms_serveUser rd i st =
     Inr (st\<lparr>ms_allQueuesEmpty := False,
             ms_currentTime := ms_currentTime st + ms_timeToTransmit (ms_users st ! i),
             ms_sentLog := ms_sentLog st @
               [(hd (ms_packetQueue (ms_users st ! i)))
                  \<lparr>ms_transmissionStart := ms_currentTime st,
                   ms_transmissionEnd := ms_currentTime st + ms_timeToTransmit (ms_users st ! i)\<rparr>],
             ms_totalLatency := ms_totalLatency st + (ms_currentTime st + ms_timeToTransmit (ms_users st ! i)
                 - ms_arrivalTimestamp (hd (ms_packetQueue (ms_users st ! i)))),
             ms_maxPacketLatency := max (ms_maxPacketLatency st) (ms_currentTime st + ms_timeToTransmit (ms_users st ! i)
                 - ms_arrivalTimestamp (hd (ms_packetQueue (ms_users st ! i)))),
             ms_transmittedPackets := ms_transmittedPackets st + 1,
             ms_users := (ms_users st)[i := ms_removePacket (ms_users st ! i)]\<rparr>)"
  using assms
  by (simp add: ms_serveUser_def ms_hasPackets_def ms_awaitStream_free ms_sendPacket_free Let_def)

lemma ms_serveUser_uncounted:
  assumes "ms_findAvailableStream (ms_channel st) \<noteq> - 1"
    and "ms_packetQueue (ms_users st ! i) \<noteq> []"
    and "\<not> ms_currentTime st + ms_timeToTransmit (ms_users st ! i) > real_of_int ms_MAX_SIMULATION_TIME"
    and "\<not> ms_currentTime st + ms_timeToTransmit (ms_users st ! i)
           - ms_arrivalTimestamp (hd (ms_packetQueue (ms_users st ! i))) > 0"
  shows "ms_serveUser rd i st =
     Inr (st\<lparr>ms_allQueuesEmpty := False,
             ms_currentTime := ms_currentTime st + ms_timeToTransmit (ms_users st ! i),
             ms_sentLog := ms_sentLog st @
               [(hd (ms_packetQueue (ms_users st ! i)))
                  \<lparr>ms_transmissionStart := ms_currentTime st,
                   ms_transmissionEnd := ms_currentTime st + ms_timeToTransmit (ms_users st ! i)\<rparr>],
             ms_users := (ms_users st)[i := ms_removePacket (ms_users st ! i)]\<rparr>)"
  using assms
  by (simp add: ms_serveUser_def ms_hasPackets_def ms_awaitStream_free ms_sendPacket_free Let_def)



lemma list_update_Cons_numeral: "(x # xs)[numeral v := y] = x # xs[numeral v - 1 := y]"
  by (simp add: numeral_eq_Suc)

lemma ms_timeToTransmit_eval:
  "ms_timeToTransmit \<lparr>ms_userID = uid, ms_distanceFromAP = d, ms_packetQueue = q\<rparr>
     = 8192 / (100000000 / 3 * (3 / 2 - d / 1000))"
  by (simp add: ms_timeToTransmit_def ms_calculateTransmissionRate_def ms_calculatePowerFactor_def ms_consts)

lemmas ms_exec = ms_serveUser_drop ms_serveUser_counted ms_serveUser_uncounted ms_serveUser_idle
  ms_timeToTransmit_eval ms_findAvailableStream_def ms_removePacket_def ms_hasPackets_def
  list_update_Cons_numeral ms_MAX_SIMULATION_TIME_def ms_mkPacket_def

subsection \<open>The acquisition loop, the pass over the users and the while loop\<close>

text \<open>
  \<open>ms_inRange\<close>: every user is between 0 and \<open>MAX_DISTANCE\<close> metres from the access
  point, as the constructor places them. The transmission rate is then positive.
\<close>

lemma ms_awaitStream_busy:
  "ms_findAvailableStream ch = - 1 \<Longrightarrow>
     \<exists>k' t'. ms_awaitStream rd ch k t = Inl (k', t') \<and> k < k'
       \<and> t < t' \<and> real_of_int ms_MAX_SIMULATION_TIME < t'"
proof (induction rd ch k t rule: ms_awaitStream.induct)
  case (1 rd channel k currentTime)
  let ?t = "currentTime + ms_randomBackoffTime (rd k)"
  have "1 \<le> 1 + int (rd k) mod ms_MAX_BACKOFF"
    by (simp add: ms_MAX_BACKOFF_def)
  then have pos: "0 < ms_randomBackoffTime (rd k)"
    unfolding ms_randomBackoffTime_def by simp
  show ?case
  proof (cases "?t > real_of_int ms_MAX_SIMULATION_TIME")
    case True
    with "1.prems" pos show ?thesis
      by (subst ms_awaitStream.simps) (simp add: Let_def)
  next
    case False
    from "1.prems" have ne: "\<not> ms_findAvailableStream channel \<noteq> - 1" by simp
    from "1.IH"[OF refl ne refl False "1.prems"] obtain k' t' where
      r: "ms_awaitStream rd channel (Suc k) ?t = Inl (k', t')" "Suc k < k'" "?t < t'"
        "real_of_int ms_MAX_SIMULATION_TIME < t'"
      by blast
    have "ms_awaitStream rd channel k currentTime = ms_awaitStream rd channel (Suc k) ?t"
      using "1.prems" False by (subst ms_awaitStream.simps) (simp add: Let_def)
    with r pos show ?thesis by simp
  qed
qed

lemma ms_awaitStream_mono:
  "(ms_awaitStream rd ch k t = Inl (k', t') \<longrightarrow> t < t' \<and> real_of_int ms_MAX_SIMULATION_TIME < t')
   \<and> (ms_awaitStream rd ch k t = Inr (idx, k', t') \<longrightarrow> t' = t \<and> k' = k \<and> idx = ms_findAvailableStream ch
          \<and> idx \<noteq> - 1)"
proof (cases "ms_findAvailableStream ch = - 1")
  case True
  from ms_awaitStream_busy[OF True, of rd k t] show ?thesis by auto
next
  case False
  from ms_awaitStream_free[OF False, of rd k t] False show ?thesis by auto
qed


definition ms_inRange :: "ms_WiFiSimulation \<Rightarrow> bool" where
  "ms_inRange st =
     (\<forall>u \<in> set (ms_users st). 0 \<le> ms_distanceFromAP u \<and> ms_distanceFromAP u \<le> ms_MAX_DISTANCE)"

lemma ms_timeToTransmit_pos:
  assumes "0 \<le> ms_distanceFromAP u" "ms_distanceFromAP u \<le> ms_MAX_DISTANCE"
  shows "0 < ms_timeToTransmit u"
proof -
  from assms have "1 / 2 \<le> ms_calculatePowerFactor u"
    by (simp add: ms_calculatePowerFactor_def ms_consts)
  then have "0 < ms_calculateTransmissionRate ms_MAX_STREAMS (ms_calculatePowerFactor u)"
    by (simp add: ms_calculateTransmissionRate_def ms_consts)
  then show ?thesis by (simp add: ms_timeToTransmit_def ms_PACKET_SIZE_BYTES_def)
qed

lemma ms_serveUser_free:
  assumes free: "ms_findAvailableStream (ms_channel st) \<noteq> - 1"
  shows "\<exists>st'. ms_serveUser rd i st = Inr st' \<and> ms_serveUser rd' i st = Inr st'
           \<and> ms_channel st' = ms_channel st \<and> ms_entropyUsed st' = ms_entropyUsed st
           \<and> (ms_currentTime st' = ms_currentTime st
                \<or> ms_currentTime st' = ms_currentTime st + ms_timeToTransmit (ms_users st ! i))
           \<and> (ms_users st' = ms_users st
                \<or> ms_users st' = (ms_users st)[i := ms_removePacket (ms_users st ! i)])"
proof -
  let ?u = "ms_users st ! i"
  let ?end = "ms_currentTime st + ms_timeToTransmit ?u"
  consider (idle) "\<not> ms_hasPackets ?u"
    | (drop) "ms_packetQueue ?u \<noteq> []" "?end > real_of_int ms_MAX_SIMULATION_TIME"
    | (counted) "ms_packetQueue ?u \<noteq> []" "\<not> ?end > real_of_int ms_MAX_SIMULATION_TIME"
        "?end - ms_arrivalTimestamp (hd (ms_packetQueue ?u)) > 0"
    | (uncounted) "ms_packetQueue ?u \<noteq> []" "\<not> ?end > real_of_int ms_MAX_SIMULATION_TIME"
        "\<not> ?end - ms_arrivalTimestamp (hd (ms_packetQueue ?u)) > 0"
    by (auto simp: ms_hasPackets_def)
  then show ?thesis
  proof cases
    case idle
    then show ?thesis by (simp add: ms_serveUser_idle)
  next
    case drop
    show ?thesis
      by (simp add: ms_serveUser_drop[OF free drop])
  next
    case counted
    show ?thesis
      by (simp add: ms_serveUser_counted[OF free counted])
  next
    case uncounted
    show ?thesis
      by (simp add: ms_serveUser_uncounted[OF free uncounted])
  qed
qed

lemma ms_serveUser_thrown:
  assumes "ms_serveUser rd i st = Inl (ex, stE)"
  shows "ex = SimulationExceeded \<and> ms_currentTime st < ms_currentTime stE
       \<and> real_of_int ms_MAX_SIMULATION_TIME < ms_currentTime stE
       \<and> ms_transmittedPackets stE = ms_transmittedPackets st
       \<and> ms_droppedPackets stE = ms_droppedPackets st
       \<and> ms_totalLatency stE = ms_totalLatency st
       \<and> ms_maxPacketLatency stE = ms_maxPacketLatency st
       \<and> ms_users stE = ms_users st"
proof (cases "ms_findAvailableStream (ms_channel st) = - 1")
  case False
  from ms_serveUser_free[OF False, of rd i rd] assms show ?thesis by auto
next
  case True
  from ms_awaitStream_busy[OF True, of rd "ms_entropyUsed st" "ms_currentTime st"]
  obtain k' t' where a: "ms_awaitStream rd (ms_channel st) (ms_entropyUsed st) (ms_currentTime st) = Inl (k', t')"
    and t: "ms_currentTime st < t'" "real_of_int ms_MAX_SIMULATION_TIME < t'"
    by blast
  show ?thesis
  proof (cases "ms_hasPackets (ms_users st ! i)")
    case False
    with assms show ?thesis by (simp add: ms_serveUser_idle)
  next
    case True
    with assms a have "ex = SimulationExceeded"
        "stE = st\<lparr>ms_allQueuesEmpty := False, ms_currentTime := t', ms_entropyUsed := k'\<rparr>"
      by (simp_all add: ms_serveUser_def)
    with t show ?thesis by simp
  qed
qed

lemma ms_serveUser_busy:
  assumes "ms_findAvailableStream (ms_channel st) = - 1" "ms_hasPackets (ms_users st ! i)"
  shows "\<exists>stE. ms_serveUser rd i st = Inl (SimulationExceeded, stE)"
proof -
  from ms_awaitStream_busy[OF assms(1), of rd "ms_entropyUsed st" "ms_currentTime st"]
  obtain k' t' where "ms_awaitStream rd (ms_channel st) (ms_entropyUsed st) (ms_currentTime st) = Inl (k', t')"
    by blast
  with assms(2) show ?thesis by (simp add: ms_serveUser_def)
qed

lemma ms_serveUser_returned:
  assumes "ms_serveUser rd i st = Inr st'" "ms_inRange st" "i < length (ms_users st)"
  shows "ms_currentTime st \<le> ms_currentTime st' \<and> ms_inRange st'"
proof (cases "ms_hasPackets (ms_users st ! i)")
  case False
  with assms show ?thesis by (simp add: ms_serveUser_idle)
next
  case True
  have free: "ms_findAvailableStream (ms_channel st) \<noteq> - 1"
  proof
    assume "ms_findAvailableStream (ms_channel st) = - 1"
    from ms_serveUser_busy[OF this True, of rd] assms(1) show False by auto
  qed
  from assms(2,3) have d: "0 \<le> ms_distanceFromAP (ms_users st ! i)"
      "ms_distanceFromAP (ms_users st ! i) \<le> ms_MAX_DISTANCE"
    by (simp_all add: ms_inRange_def)
  from ms_timeToTransmit_pos[OF d] have tt: "0 < ms_timeToTransmit (ms_users st ! i)" .
  from ms_serveUser_free[OF free, of rd i rd] assms(1)
  have t: "ms_currentTime st' = ms_currentTime st
         \<or> ms_currentTime st' = ms_currentTime st + ms_timeToTransmit (ms_users st ! i)"
    and u: "ms_users st' = ms_users st \<or> ms_users st' = (ms_users st)[i := ms_removePacket (ms_users st ! i)]"
    by auto
  have "ms_inRange st'"
    unfolding ms_inRange_def
  proof
    fix v assume v: "v \<in> set (ms_users st')"
    from u show "0 \<le> ms_distanceFromAP v \<and> ms_distanceFromAP v \<le> ms_MAX_DISTANCE"
    proof
      assume "ms_users st' = ms_users st"
      with v assms(2) show ?thesis by (simp add: ms_inRange_def)
    next
      assume "ms_users st' = (ms_users st)[i := ms_removePacket (ms_users st ! i)]"
      with v have "v \<in> set (ms_users st) \<or> v = ms_removePacket (ms_users st ! i)"
        by (auto dest: set_update_subset_insert[THEN subsetD])
      with d assms(2) show ?thesis by (auto simp: ms_inRange_def ms_removePacket_def)
    qed
  qed
  with t tt show ?thesis by auto
qed


lemma ms_forUsers_free:
  assumes "ms_findAvailableStream (ms_channel st) \<noteq> - 1"
  shows "\<exists>st'. ms_forUsers rd is st = Inr st' \<and> ms_forUsers rd' is st = Inr st'
           \<and> ms_channel st' = ms_channel st \<and> ms_entropyUsed st' = ms_entropyUsed st"
  using assms
proof (induction "is" arbitrary: st)
  case Nil
  then show ?case by simp
next
  case (Cons i rest)
  from ms_serveUser_free[OF Cons.prems, of rd i rd'] obtain st1 where
    s: "ms_serveUser rd i st = Inr st1" "ms_serveUser rd' i st = Inr st1"
    and c: "ms_channel st1 = ms_channel st" "ms_entropyUsed st1 = ms_entropyUsed st"
    by blast
  from Cons.prems c have "ms_findAvailableStream (ms_channel st1) \<noteq> - 1" by simp
  from Cons.IH[OF this] s c show ?case by simp
qed

lemma ms_forUsers_thrown:
  assumes "ms_forUsers rd is st = Inl (ex, stE)"
  shows "ex = SimulationExceeded \<and> real_of_int ms_MAX_SIMULATION_TIME < ms_currentTime stE"
  using assms
proof (induction "is" arbitrary: st)
  case Nil
  then show ?case by simp
next
  case (Cons i rest)
  show ?case
  proof (cases "ms_serveUser rd i st")
    case (Inl e)
    with Cons.prems have "ms_serveUser rd i st = Inl (ex, stE)" by simp
    from ms_serveUser_thrown[OF this] show ?thesis by simp
  next
    case (Inr st1)
    with Cons.prems have "ms_forUsers rd rest st1 = Inl (ex, stE)" by simp
    from Cons.IH[OF this] show ?thesis .
  qed
qed

lemma ms_forUsers_clock:
  assumes "ms_inRange st" "\<forall>i \<in> set is. i < length (ms_users st)"
  shows "(ms_forUsers rd is st = Inr st' \<longrightarrow> ms_currentTime st \<le> ms_currentTime st' \<and> ms_inRange st'
            \<and> length (ms_users st') = length (ms_users st))
       \<and> (ms_forUsers rd is st = Inl (ex, stE) \<longrightarrow> ms_currentTime st \<le> ms_currentTime stE)"
  using assms
proof (induction "is" arbitrary: st)
  case Nil
  then show ?case by auto
next
  case (Cons i rest)
  from Cons.prems(2) have i: "i < length (ms_users st)" by simp
  show ?case
  proof (cases "ms_serveUser rd i st")
    case (Inl e)
    obtain e1 s1 where e: "e = (e1, s1)" by (cases e)
    from ms_serveUser_thrown[OF Inl[unfolded e]] Inl e show ?thesis by auto
  next
    case (Inr st1)
    from ms_serveUser_returned[OF Inr Cons.prems(1) i]
    have t: "ms_currentTime st \<le> ms_currentTime st1" and r: "ms_inRange st1" by simp_all
    from ms_serveUser_queued[OF Inr i] have l: "length (ms_users st1) = length (ms_users st)" by simp
    with Cons.prems(2) have "\<forall>j \<in> set rest. j < length (ms_users st1)" by simp
    from Cons.IH[OF r this] t l Inr show ?thesis by auto
  qed
qed

lemma ms_whileLoop_free:
  "ms_findAvailableStream (ms_channel st) \<noteq> - 1 \<Longrightarrow>
     \<exists>st'. ms_whileLoop rd st = Inr st' \<and> ms_whileLoop rd' st = Inr st'
       \<and> ms_channel st' = ms_channel st \<and> ms_entropyUsed st' = ms_entropyUsed st"
proof (induction rd st rule: ms_whileLoop.induct)
  case (1 rd st)
  let ?st0 = "st\<lparr>ms_allQueuesEmpty := True\<rparr>"
  let ?is = "[0 ..< length (ms_users st)]"
  from "1.prems" have "ms_findAvailableStream (ms_channel ?st0) \<noteq> - 1" by simp
  from ms_forUsers_free[OF this, of rd ?is rd'] obtain st1 where
    f: "ms_forUsers rd ?is ?st0 = Inr st1" "ms_forUsers rd' ?is ?st0 = Inr st1"
    and c: "ms_channel st1 = ms_channel st" "ms_entropyUsed st1 = ms_entropyUsed st"
    by auto
  show ?case
  proof (cases "ms_allQueuesEmpty st1 \<or> ms_currentTime st1 > real_of_int ms_MAX_SIMULATION_TIME")
    case True
    have "ms_whileLoop rd st = Inr st1" using f(1) True by (subst ms_whileLoop.simps) simp
    moreover have "ms_whileLoop rd' st = Inr st1" using f(2) True by (subst ms_whileLoop.simps) simp
    ultimately show ?thesis using c by simp
  next
    case False
    have a: "ms_whileLoop rd st = ms_whileLoop rd st1" using f(1) False by (subst ms_whileLoop.simps) simp
    have b: "ms_whileLoop rd' st = ms_whileLoop rd' st1" using f(2) False by (subst ms_whileLoop.simps) simp
    from "1.prems" c have "ms_findAvailableStream (ms_channel st1) \<noteq> - 1" by simp
    from "1.IH"[OF f(1) False this] a b c show ?thesis by simp
  qed
qed

lemma ms_whileLoop_thrown:
  "ms_whileLoop rd st = Inl (ex, stE) \<Longrightarrow>
     ex = SimulationExceeded \<and> real_of_int ms_MAX_SIMULATION_TIME < ms_currentTime stE"
proof (induction rd st rule: ms_whileLoop.induct)
  case (1 rd st)
  let ?st0 = "st\<lparr>ms_allQueuesEmpty := True\<rparr>"
  let ?is = "[0 ..< length (ms_users st)]"
  show ?case
  proof (cases "ms_forUsers rd ?is ?st0")
    case (Inl e)
    with "1.prems" have "ms_forUsers rd ?is ?st0 = Inl (ex, stE)"
      by (subst (asm) ms_whileLoop.simps) simp
    from ms_forUsers_thrown[OF this] show ?thesis .
  next
    case (Inr st1)
    show ?thesis
    proof (cases "ms_allQueuesEmpty st1 \<or> ms_currentTime st1 > real_of_int ms_MAX_SIMULATION_TIME")
      case True
      with Inr "1.prems" show ?thesis by (subst (asm) ms_whileLoop.simps) simp
    next
      case False
      with Inr "1.prems" have "ms_whileLoop rd st1 = Inl (ex, stE)"
        by (subst (asm) ms_whileLoop.simps) simp
      from "1.IH"[OF Inr False this] show ?thesis .
    qed
  qed
qed

lemma ms_whileLoop_clock:
  "ms_inRange st \<Longrightarrow>
     (ms_whileLoop rd st = Inr st' \<longrightarrow> ms_currentTime st \<le> ms_currentTime st')
     \<and> (ms_whileLoop rd st = Inl (ex, stE) \<longrightarrow> ms_currentTime st \<le> ms_currentTime stE)"
proof (induction rd st rule: ms_whileLoop.induct)
  case (1 rd st)
  let ?st0 = "st\<lparr>ms_allQueuesEmpty := True\<rparr>"
  let ?is = "[0 ..< length (ms_users st)]"
  from "1.prems" have r0: "ms_inRange ?st0" by (simp add: ms_inRange_def)
  have idx: "\<forall>i \<in> set ?is. i < length (ms_users ?st0)" by simp
  show ?case
  proof (cases "ms_forUsers rd ?is ?st0")
    case (Inl e)
    obtain e1 s1 where e: "e = (e1, s1)" by (cases e)
    from ms_forUsers_clock[OF r0 idx, of rd undefined e1 s1] Inl e
    have "ms_currentTime st \<le> ms_currentTime s1" by simp
    moreover have "ms_whileLoop rd st = Inl (e1, s1)"
      using Inl e by (subst ms_whileLoop.simps) simp
    ultimately show ?thesis by auto
  next
    case (Inr st1)
    from ms_forUsers_clock[OF r0 idx, of rd st1] Inr
    have t: "ms_currentTime st \<le> ms_currentTime st1" and r1: "ms_inRange st1" by simp_all
    show ?thesis
    proof (cases "ms_allQueuesEmpty st1 \<or> ms_currentTime st1 > real_of_int ms_MAX_SIMULATION_TIME")
      case True
      then have "ms_whileLoop rd st = Inr st1" using Inr by (subst ms_whileLoop.simps) simp
      with t show ?thesis by auto
    next
      case False
      then have "ms_whileLoop rd st = ms_whileLoop rd st1" using Inr by (subst ms_whileLoop.simps) simp
      with "1.IH"[OF Inr False r1] t show ?thesis by auto
    qed
  qed
qed

subsection \<open>The users the constructor creates, and a run with one user and two packets\<close>

lemma ms_mkWiFiSimulation_distance:
  assumes "u \<in> set (ms_users (ms_mkWiFiSimulation rands userCount))"
  shows "0 \<le> ms_distanceFromAP u \<and> ms_distanceFromAP u \<le> ms_MAX_DISTANCE \<and> ms_packetQueue u = []"
proof -
  from assms obtain i where "u = ms_mkUser (int i) (real (rands i mod 1001))"
    by (auto simp: ms_mkWiFiSimulation_def)
  moreover have "rands i mod 1001 \<le> 1000"
    by (simp add: less_Suc_eq_le[symmetric])
  then have "real (rands i mod 1001) \<le> 1000"
    by linarith
  ultimately show ?thesis
    by (simp add: ms_mkUser_def ms_MAX_DISTANCE_def)
qed

lemma ms_generatePackets_2:
  "ms_generatePackets 2 0 \<lparr>ms_userID = uid, ms_distanceFromAP = d, ms_packetQueue = []\<rparr>
     = \<lparr>ms_userID = uid, ms_distanceFromAP = d,
        ms_packetQueue = [ms_mkPacket 0 0, ms_mkPacket 1 (1 / 100)]\<rparr>"
  by (simp add: ms_generatePackets_def ms_emplace_def ms_mkPacket_def eval_nat_numeral)

definition ms_oneUserStart :: ms_WiFiSimulation where
  "ms_oneUserStart =
     \<lparr>ms_users = [\<lparr>ms_userID = 0, ms_distanceFromAP = 500,
                    ms_packetQueue = [ms_mkPacket 0 0, ms_mkPacket 1 (1 / 100)]\<rparr>],
      ms_channel = [False, False, False, False],
      ms_simulationTime = 0, ms_transmittedPackets = 0, ms_droppedPackets = 0,
      ms_totalLatency = 0, ms_maxPacketLatency = 0,
      ms_currentTime = 0, ms_allQueuesEmpty = True, ms_entropyUsed = 0, ms_sentLog = []\<rparr>"

lemma ms_channel_initial:
  "ms_mkFrequencyChannel ms_MAX_STREAMS = [False, False, False, False]"
  by (simp add: ms_mkFrequencyChannel_def ms_MAX_STREAMS_def eval_nat_numeral)

lemma ms_oneUser_prepared:
  "ms_prepared 2 (ms_mkWiFiSimulation (\<lambda>i. 500) 1) = ms_oneUserStart"
  by (simp add: ms_prepared_def ms_mkWiFiSimulation_def ms_mkUser_def ms_channel_initial
      ms_generatePackets_2 ms_oneUserStart_def)

lemma ms_oneUser_loop:
  "ms_whileLoop rd ms_oneUserStart =
     Inr \<lparr>ms_users = [\<lparr>ms_userID = 0, ms_distanceFromAP = 500, ms_packetQueue = []\<rparr>],
          ms_channel = [False, False, False, False], ms_simulationTime = 0,
          ms_transmittedPackets = 1, ms_droppedPackets = 0,
          ms_totalLatency = 96 / 390625, ms_maxPacketLatency = 96 / 390625,
          ms_currentTime = 192 / 390625, ms_allQueuesEmpty = True,
          ms_entropyUsed = 0,
          ms_sentLog =
            [\<lparr>ms_packetID = 0, ms_arrivalTimestamp = 0,
                ms_transmissionStart = 0, ms_transmissionEnd = 96 / 390625\<rparr>,
             \<lparr>ms_packetID = 1, ms_arrivalTimestamp = 1 / 100,
                ms_transmissionStart = 96 / 390625, ms_transmissionEnd = 192 / 390625\<rparr>]\<rparr>"
  unfolding ms_oneUserStart_def
  apply (subst ms_whileLoop.simps)
  apply (simp add: ms_exec)
  apply (subst ms_whileLoop.simps)
  apply (simp add: ms_exec)
  apply (subst ms_whileLoop.simps)
  apply (simp add: ms_exec)
  done

lemma ms_oneUser_run:
  "ms_runSimulation rd 1 2 (ms_mkWiFiSimulation (\<lambda>i. 500) 1) =
     \<lparr>ms_users = [\<lparr>ms_userID = 0, ms_distanceFromAP = 500, ms_packetQueue = []\<rparr>],
          ms_channel = [False, False, False, False], ms_simulationTime = 192 / 390625,
          ms_transmittedPackets = 1, ms_droppedPackets = 0,
          ms_totalLatency = 96 / 390625, ms_maxPacketLatency = 96 / 390625,
          ms_currentTime = 192 / 390625, ms_allQueuesEmpty = True,
          ms_entropyUsed = 0,
          ms_sentLog =
            [\<lparr>ms_packetID = 0, ms_arrivalTimestamp = 0,
                ms_transmissionStart = 0, ms_transmissionEnd = 96 / 390625\<rparr>,
             \<lparr>ms_packetID = 1, ms_arrivalTimestamp = 1 / 100,
                ms_transmissionStart = 96 / 390625, ms_transmissionEnd = 192 / 390625\<rparr>]\<rparr>"
  unfolding ms_runSimulation_def Let_def
  by (simp add: ms_oneUser_prepared ms_oneUser_loop)


definition ms_oneUserMid :: ms_WiFiSimulation where
  "ms_oneUserMid =
     \<lparr>ms_users = [\<lparr>ms_userID = 0, ms_distanceFromAP = 500,
                    ms_packetQueue = [ms_mkPacket 1 (1 / 100)]\<rparr>],
      ms_channel = [False, False, False, False],
      ms_simulationTime = 0, ms_transmittedPackets = 1, ms_droppedPackets = 0,
      ms_totalLatency = 96 / 390625, ms_maxPacketLatency = 96 / 390625,
      ms_currentTime = 96 / 390625, ms_allQueuesEmpty = False, ms_entropyUsed = 0,
      ms_sentLog = [\<lparr>ms_packetID = 0, ms_arrivalTimestamp = 0,
                     ms_transmissionStart = 0, ms_transmissionEnd = 96 / 390625\<rparr>]\<rparr>"

lemma ms_oneUser_first:
  "ms_serveUser rd 0 ms_oneUserStart = Inr ms_oneUserMid"
  by (simp add: ms_oneUserStart_def ms_oneUserMid_def ms_exec)

subsection \<open>What generatePackets leaves, and the state a run starts from\<close>

lemma ms_generate_fold:
  "fold (ms_emplace t) (map int [0 ..< m]) u =
     u\<lparr>ms_packetQueue := ms_packetQueue u @
          map (\<lambda>i. ms_mkPacket (int i) (t + real_of_int (int i) * (1 / 100))) [0 ..< m]\<rparr>"
  by (induction m) (simp_all add: ms_emplace_def)

lemma ms_generatePackets_closed:
  "ms_generatePackets packetCount t u =
     u\<lparr>ms_packetQueue := ms_packetQueue u @
          map (\<lambda>i. ms_mkPacket (int i) (t + real_of_int (int i) * (1 / 100))) [0 ..< nat packetCount]\<rparr>"
  by (simp add: ms_generatePackets_def ms_generate_fold)

lemma ms_prepared_fields:
  "ms_channel (ms_prepared packetsPerUser st) = ms_channel st"
  "ms_entropyUsed (ms_prepared packetsPerUser st) = ms_entropyUsed st"
  "ms_currentTime (ms_prepared packetsPerUser st) = 0"
  "ms_transmittedPackets (ms_prepared packetsPerUser st) = ms_transmittedPackets st"
  "ms_droppedPackets (ms_prepared packetsPerUser st) = ms_droppedPackets st"
  "ms_users (ms_prepared packetsPerUser st) = map (ms_generatePackets packetsPerUser 0) (ms_users st)"
  by (simp_all add: ms_prepared_def)

lemma ms_prepared_inRange:
  "ms_inRange st \<Longrightarrow> ms_inRange (ms_prepared packetsPerUser st)"
  by (auto simp: ms_inRange_def ms_prepared_fields ms_generatePackets_closed)

lemma ms_mkWiFiSimulation_inRange: "ms_inRange (ms_mkWiFiSimulation rands userCount)"
  unfolding ms_inRange_def using ms_mkWiFiSimulation_distance by blast

lemma ms_mkWiFiSimulation_free:
  "ms_findAvailableStream (ms_channel (ms_mkWiFiSimulation rands userCount)) \<noteq> - 1"
  by (simp add: ms_mkWiFiSimulation_def ms_channel_initial ms_findAvailableStream_def)

section \<open>Sub-channel variant (src/unnamed/part_000, the OFDMA program)\<close>

subsection \<open>Constants\<close>

definition sc_PACKET_SIZE_BYTES :: int where "sc_PACKET_SIZE_BYTES = 1024"
definition sc_MODULATION_BITS :: real where "sc_MODULATION_BITS = 8"
definition sc_CODING_RATE :: real where "sc_CODING_RATE = 5 / 6"
definition sc_MAX_SIMULATION_TIME :: int where "sc_MAX_SIMULATION_TIME = 5000"
definition sc_ALLOCATION_PERIOD :: real where "sc_ALLOCATION_PERIOD = 5 / 1000"
definition sc_MAX_QUEUE_SIZE :: int where "sc_MAX_QUEUE_SIZE = 50"
definition sc_TIMEOUT_LIMIT :: real where "sc_TIMEOUT_LIMIT = 1"
definition sc_SUB_CHANNELS :: "real list" where "sc_SUB_CHANNELS = [2, 4, 10]"

definition sc_calculateDataRate :: "real \<Rightarrow> real" where
  "sc_calculateDataRate bandwidth = bandwidth * 1000000 * sc_MODULATION_BITS * sc_CODING_RATE"

subsection \<open>Packet, SubChannel, User\<close>

record sc_Packet =
  sc_id :: int
  sc_arrivalTime :: real
  sc_transmissionStartTime :: real
  sc_transmissionEndTime :: real

definition sc_mkPacket :: "int \<Rightarrow> real \<Rightarrow> sc_Packet" where
  "sc_mkPacket packetId arrival =
     \<lparr>sc_id = packetId, sc_arrivalTime = arrival,
      sc_transmissionStartTime = 0, sc_transmissionEndTime = 0\<rparr>"

record sc_SubChannel =
  sc_bandwidth :: real
  sc_busy :: bool

definition sc_mkSubChannel :: "real \<Rightarrow> sc_SubChannel" where
  "sc_mkSubChannel bw = \<lparr>sc_bandwidth = bw, sc_busy = False\<rparr>"

record sc_User =
  sc_userId :: int
  sc_packetQueue :: "sc_Packet list"
  sc_droppedPackets :: int

definition sc_mkUser :: "int \<Rightarrow> sc_User" where
  "sc_mkUser userId = \<lparr>sc_userId = userId, sc_packetQueue = [], sc_droppedPackets = 0\<rparr>"

text \<open>The body of the \<open>for\<close> loop of \<open>generatePackets\<close>, then the loop over \<open>i = 0 .. numPackets - 1\<close>.\<close>

definition sc_generateStep :: "real \<Rightarrow> int \<Rightarrow> sc_User \<Rightarrow> sc_User" where
  "sc_generateStep currentTime i u =
     (if int (length (sc_packetQueue u)) \<ge> sc_MAX_QUEUE_SIZE
      then u\<lparr>sc_droppedPackets := sc_droppedPackets u + 1\<rparr>
      else u\<lparr>sc_packetQueue := sc_packetQueue u @ [sc_mkPacket i (currentTime + real_of_int i * (1 / 100))]\<rparr>)"

definition sc_generatePackets :: "int \<Rightarrow> real \<Rightarrow> sc_User \<Rightarrow> sc_User" where
  "sc_generatePackets numPackets currentTime u =
     fold (sc_generateStep currentTime) (map int [0 ..< nat numPackets]) u"

subsection \<open>WiFiSimulation\<close>

text \<open>
  The fields of the class, then the locals of \<open>runSimulation\<close> (\<open>currentTime\<close>,
  \<open>allQueuesEmpty\<close>). \<open>sc_sentLog\<close> is a history variable, not a program variable: it
  keeps each transmitted packet as stamped, because the program destroys it right after.
\<close>

record sc_WiFiSimulation =
  sc_users :: "sc_User list"
  sc_subChannels :: "sc_SubChannel list"
  sc_totalTime :: real
  sc_totalPackets :: int
  sc_totalLatency :: real
  sc_maxLatency :: real
  sc_totalDroppedPackets :: int
  sc_currentRoundRobinUser :: nat
  sc_currentTime :: real
  sc_allQueuesEmpty :: bool
  sc_sentLog :: "sc_Packet list"

definition sc_mkWiFiSimulation :: "int \<Rightarrow> sc_WiFiSimulation" where
  "sc_mkWiFiSimulation numUsers =
     \<lparr>sc_users = map (\<lambda>i. sc_mkUser (int i)) [0 ..< nat numUsers],
      sc_subChannels = map sc_mkSubChannel sc_SUB_CHANNELS,
      sc_totalTime = 0, sc_totalPackets = 0, sc_totalLatency = 0, sc_maxLatency = 0,
      sc_totalDroppedPackets = 0, sc_currentRoundRobinUser = 0,
      sc_currentTime = 0, sc_allQueuesEmpty = True, sc_sentLog = []\<rparr>"

text \<open>
  \<open>users[currentRoundRobinUser]\<close> is an unchecked read of a vector: outside the vector
  (which happens only when there is no user) the behaviour of the program is undefined,
  and the model stops with \<open>OutOfRange\<close>.
\<close>

datatype sc_error = OutOfRange | NoPacketsTransmittedSc

text \<open>
  The body of \<open>for (auto& subChannel : subChannels)\<close>, for the sub-channel at index \<open>j\<close>.
  Each \<open>continue\<close> is a branch that returns the state.
\<close>

definition sc_serveSubChannel :: "nat \<Rightarrow> sc_WiFiSimulation \<Rightarrow> sc_error + sc_WiFiSimulation" where
  "sc_serveSubChannel j st =
     (let subChannel = sc_subChannels st ! j;
          rr = sc_currentRoundRobinUser st
      in
      if sc_busy subChannel then Inr st
      else if rr \<ge> length (sc_users st) then Inl OutOfRange
      else
        let user = sc_users st ! rr in
        if sc_packetQueue user = []
        then Inr (st\<lparr>sc_currentRoundRobinUser := (rr + 1) mod length (sc_users st)\<rparr>)
        else
          let st1 = st\<lparr>sc_allQueuesEmpty := False\<rparr>;
              packet = hd (sc_packetQueue user);
              st2 = (if sc_currentTime st1 < sc_arrivalTime packet
                     then st1\<lparr>sc_currentTime := sc_arrivalTime packet\<rparr> else st1)
          in
          if sc_currentTime st2 - sc_arrivalTime packet > sc_TIMEOUT_LIMIT
          then Inr (st2\<lparr>sc_users := (sc_users st2)
                          [rr := user\<lparr>sc_packetQueue := tl (sc_packetQueue user),
                                      sc_droppedPackets := sc_droppedPackets user + 1\<rparr>],
                        sc_totalDroppedPackets := sc_totalDroppedPackets st2 + 1\<rparr>)
          else
            let st3 = st2\<lparr>sc_subChannels := (sc_subChannels st2)[j := subChannel\<lparr>sc_busy := True\<rparr>]\<rparr>;
                dataRate = sc_calculateDataRate (sc_bandwidth subChannel);
                packet1 = packet\<lparr>sc_transmissionStartTime := sc_currentTime st3\<rparr>;
                transmissionTime = real_of_int (sc_PACKET_SIZE_BYTES * 8) / dataRate;
                packet2 = packet1\<lparr>sc_transmissionEndTime := sc_currentTime st3 + transmissionTime\<rparr>;
                latency = sc_transmissionEndTime packet2 - sc_arrivalTime packet2;
                st4 = st3\<lparr>sc_totalLatency := sc_totalLatency st3 + latency,
                          sc_maxLatency := max (sc_maxLatency st3) latency,
                          sc_totalPackets := sc_totalPackets st3 + 1,
                          sc_sentLog := sc_sentLog st3 @ [packet2]\<rparr>;
                st5 = st4\<lparr>sc_currentTime := sc_transmissionEndTime packet2,
                          sc_subChannels := (sc_subChannels st4)[j := (sc_subChannels st4 ! j)\<lparr>sc_busy := False\<rparr>]\<rparr>
            in Inr (st5\<lparr>sc_users := (sc_users st5)[rr := user\<lparr>sc_packetQueue := tl (sc_packetQueue user)\<rparr>],
                         sc_currentRoundRobinUser := (rr + 1) mod length (sc_users st5)\<rparr>))"

fun sc_forSubChannels :: "nat list \<Rightarrow> sc_WiFiSimulation \<Rightarrow> sc_error + sc_WiFiSimulation" where
  "sc_forSubChannels [] st = Inr st"
| "sc_forSubChannels (j # rest) st =
     (case sc_serveSubChannel j st of
        Inl e \<Rightarrow> Inl e
      | Inr st' \<Rightarrow> sc_forSubChannels rest st')"

definition sc_queued :: "sc_WiFiSimulation \<Rightarrow> nat" where
  "sc_queued st = sum_list (map (\<lambda>u. length (sc_packetQueue u)) (sc_users st))"

subsection \<open>Closed forms of the loop body, and the size of the queues\<close>

text \<open>
  \<open>sc_transmissionTime\<close> is the local \<open>transmissionTime\<close> of \<open>runSimulation\<close> for a given
  sub-channel.
\<close>

definition sc_transmissionTime :: "sc_SubChannel \<Rightarrow> real" where
  "sc_transmissionTime subChannel =
     real_of_int (sc_PACKET_SIZE_BYTES * 8) / sc_calculateDataRate (sc_bandwidth subChannel)"

lemma sc_serve_busy:
  "sc_busy (sc_subChannels st ! j) \<Longrightarrow> sc_serveSubChannel j st = Inr st"
  by (simp add: sc_serveSubChannel_def)

lemma sc_serve_outOfRange:
  "\<not> sc_busy (sc_subChannels st ! j) \<Longrightarrow> sc_currentRoundRobinUser st \<ge> length (sc_users st) \<Longrightarrow>
     sc_serveSubChannel j st = Inl OutOfRange"
  by (simp add: sc_serveSubChannel_def)

lemma sc_serve_empty:
  assumes "\<not> sc_busy (sc_subChannels st ! j)"
    and "sc_currentRoundRobinUser st < length (sc_users st)"
    and "sc_packetQueue (sc_users st ! sc_currentRoundRobinUser st) = []"
  shows "sc_serveSubChannel j st =
     Inr (st\<lparr>sc_currentRoundRobinUser := (sc_currentRoundRobinUser st + 1) mod length (sc_users st)\<rparr>)"
  using assms by (simp add: sc_serveSubChannel_def)

lemma sc_wait:
  "t = sc_currentTime s \<Longrightarrow>
     (if t < a then s\<lparr>sc_currentTime := a\<rparr> else s) = s\<lparr>sc_currentTime := max t a\<rparr>"
  by (simp add: max_def)

lemma sc_serve_timeout:
  assumes "\<not> sc_busy (sc_subChannels st ! j)"
    and "sc_currentRoundRobinUser st < length (sc_users st)"
    and "sc_packetQueue (sc_users st ! sc_currentRoundRobinUser st) \<noteq> []"
    and "max (sc_currentTime st) (sc_arrivalTime (hd (sc_packetQueue (sc_users st ! sc_currentRoundRobinUser st))))
           - sc_arrivalTime (hd (sc_packetQueue (sc_users st ! sc_currentRoundRobinUser st))) > sc_TIMEOUT_LIMIT"
  shows "sc_serveSubChannel j st =
     Inr (st\<lparr>sc_allQueuesEmpty := False,
             sc_currentTime := max (sc_currentTime st)
                (sc_arrivalTime (hd (sc_packetQueue (sc_users st ! sc_currentRoundRobinUser st)))),
             sc_users := (sc_users st)[sc_currentRoundRobinUser st :=
                (sc_users st ! sc_currentRoundRobinUser st)
                  \<lparr>sc_packetQueue := tl (sc_packetQueue (sc_users st ! sc_currentRoundRobinUser st)),
                   sc_droppedPackets := sc_droppedPackets (sc_users st ! sc_currentRoundRobinUser st) + 1\<rparr>],
             sc_totalDroppedPackets := sc_totalDroppedPackets st + 1\<rparr>)"
  using assms by (simp add: sc_serveSubChannel_def Let_def sc_wait)

lemma sc_busy_toggle:
  assumes "j < length cs" "\<not> sc_busy (cs ! j)"
  shows "(cs[j := (cs ! j)\<lparr>sc_busy := True\<rparr>])[j := (cs[j := (cs ! j)\<lparr>sc_busy := True\<rparr>] ! j)\<lparr>sc_busy := False\<rparr>] = cs"
proof -
  have "(cs ! j)\<lparr>sc_busy := False\<rparr> = cs ! j" using assms(2) by simp
  with assms(1) show ?thesis by (simp add: list_update_id)
qed

lemma sc_serve_transmit:
  assumes "\<not> sc_busy (sc_subChannels st ! j)" and "j < length (sc_subChannels st)"
    and "sc_currentRoundRobinUser st < length (sc_users st)"
    and "sc_packetQueue (sc_users st ! sc_currentRoundRobinUser st) \<noteq> []"
    and "\<not> max (sc_currentTime st) (sc_arrivalTime (hd (sc_packetQueue (sc_users st ! sc_currentRoundRobinUser st))))
           - sc_arrivalTime (hd (sc_packetQueue (sc_users st ! sc_currentRoundRobinUser st))) > sc_TIMEOUT_LIMIT"
  shows "sc_serveSubChannel j st =
     Inr (st\<lparr>sc_allQueuesEmpty := False,
             sc_totalLatency := sc_totalLatency st +
               (max (sc_currentTime st) (sc_arrivalTime (hd (sc_packetQueue (sc_users st ! sc_currentRoundRobinUser st))))
                + sc_transmissionTime (sc_subChannels st ! j)
                - sc_arrivalTime (hd (sc_packetQueue (sc_users st ! sc_currentRoundRobinUser st)))),
             sc_maxLatency := max (sc_maxLatency st)
               (max (sc_currentTime st) (sc_arrivalTime (hd (sc_packetQueue (sc_users st ! sc_currentRoundRobinUser st))))
                + sc_transmissionTime (sc_subChannels st ! j)
                - sc_arrivalTime (hd (sc_packetQueue (sc_users st ! sc_currentRoundRobinUser st)))),
             sc_totalPackets := sc_totalPackets st + 1,
             sc_sentLog := sc_sentLog st @
               [(hd (sc_packetQueue (sc_users st ! sc_currentRoundRobinUser st)))
                  \<lparr>sc_transmissionStartTime :=
                     max (sc_currentTime st) (sc_arrivalTime (hd (sc_packetQueue (sc_users st ! sc_currentRoundRobinUser st)))),
                   sc_transmissionEndTime :=
                     max (sc_currentTime st) (sc_arrivalTime (hd (sc_packetQueue (sc_users st ! sc_currentRoundRobinUser st))))
                     + sc_transmissionTime (sc_subChannels st ! j)\<rparr>],
             sc_currentTime :=
               max (sc_currentTime st) (sc_arrivalTime (hd (sc_packetQueue (sc_users st ! sc_currentRoundRobinUser st))))
               + sc_transmissionTime (sc_subChannels st ! j),
             sc_users := (sc_users st)[sc_currentRoundRobinUser st :=
                (sc_users st ! sc_currentRoundRobinUser st)
                  \<lparr>sc_packetQueue := tl (sc_packetQueue (sc_users st ! sc_currentRoundRobinUser st))\<rparr>],
             sc_currentRoundRobinUser := (sc_currentRoundRobinUser st + 1) mod length (sc_users st)\<rparr>)"
  using assms sc_busy_toggle[OF assms(2) assms(1)]
  by (simp add: sc_serveSubChannel_def Let_def sc_wait sc_transmissionTime_def)


lemma sum_list_map_update_less:
  fixes f :: "'a \<Rightarrow> nat"
  shows "i < length xs \<Longrightarrow> f y < f (xs ! i) \<Longrightarrow> sum_list (map f (xs[i := y])) < sum_list (map f xs)"
proof (induction xs arbitrary: i)
  case Nil
  then show ?case by simp
next
  case (Cons x xs)
  then show ?case by (cases i) auto
qed

lemma sc_serve_queued:
  assumes "sc_serveSubChannel j st = Inr st'" "j < length (sc_subChannels st)"
  shows "length (sc_users st') = length (sc_users st)
       \<and> length (sc_subChannels st') = length (sc_subChannels st)
       \<and> sc_queued st' \<le> sc_queued st
       \<and> (sc_allQueuesEmpty st' \<longrightarrow> sc_allQueuesEmpty st)
       \<and> (sc_allQueuesEmpty st \<and> \<not> sc_allQueuesEmpty st' \<longrightarrow> sc_queued st' < sc_queued st)"
proof -
  let ?rr = "sc_currentRoundRobinUser st"
  let ?u = "sc_users st ! ?rr"
  let ?len = "\<lambda>u. length (sc_packetQueue u)"
  consider (busy) "sc_busy (sc_subChannels st ! j)"
    | (oor) "\<not> sc_busy (sc_subChannels st ! j)" "?rr \<ge> length (sc_users st)"
    | (empty) "\<not> sc_busy (sc_subChannels st ! j)" "?rr < length (sc_users st)" "sc_packetQueue ?u = []"
    | (timeout) "\<not> sc_busy (sc_subChannels st ! j)" "?rr < length (sc_users st)" "sc_packetQueue ?u \<noteq> []"
        "max (sc_currentTime st) (sc_arrivalTime (hd (sc_packetQueue ?u)))
           - sc_arrivalTime (hd (sc_packetQueue ?u)) > sc_TIMEOUT_LIMIT"
    | (transmit) "\<not> sc_busy (sc_subChannels st ! j)" "?rr < length (sc_users st)" "sc_packetQueue ?u \<noteq> []"
        "\<not> max (sc_currentTime st) (sc_arrivalTime (hd (sc_packetQueue ?u)))
           - sc_arrivalTime (hd (sc_packetQueue ?u)) > sc_TIMEOUT_LIMIT"
    by linarith
  then show ?thesis
  proof cases
    case busy
    with assms show ?thesis by (simp add: sc_serve_busy)
  next
    case oor
    with assms show ?thesis by (simp add: sc_serve_outOfRange)
  next
    case empty
    with assms show ?thesis by (auto simp: sc_serve_empty sc_queued_def)
  next
    case timeout
    have "?len (?u\<lparr>sc_packetQueue := tl (sc_packetQueue ?u),
                   sc_droppedPackets := sc_droppedPackets ?u + 1\<rparr>) < ?len (sc_users st ! ?rr)"
      using timeout(3) by simp
    from sum_list_map_update_less[of ?rr "sc_users st" ?len, OF timeout(2) this]
    show ?thesis
      using assms(1) by (auto simp: sc_serve_timeout[OF timeout] sc_queued_def)
  next
    case transmit
    have "?len (?u\<lparr>sc_packetQueue := tl (sc_packetQueue ?u)\<rparr>) < ?len (sc_users st ! ?rr)"
      using transmit(3) by simp
    from sum_list_map_update_less[of ?rr "sc_users st" ?len, OF transmit(2) this]
    show ?thesis
      using assms(1) by (auto simp: sc_serve_transmit[OF transmit(1) assms(2) transmit(2-4)] sc_queued_def)
  qed
qed

lemma sc_forSubChannels_queued:
  assumes "sc_forSubChannels js st = Inr st'" "\<forall>j \<in> set js. j < length (sc_subChannels st)"
  shows "length (sc_users st') = length (sc_users st)
       \<and> length (sc_subChannels st') = length (sc_subChannels st)
       \<and> sc_queued st' \<le> sc_queued st
       \<and> (sc_allQueuesEmpty st' \<longrightarrow> sc_allQueuesEmpty st)
       \<and> (sc_allQueuesEmpty st \<and> \<not> sc_allQueuesEmpty st' \<longrightarrow> sc_queued st' < sc_queued st)"
  using assms
proof (induction js arbitrary: st)
  case Nil
  then show ?case by simp
next
  case (Cons j rest)
  from Cons.prems(1) obtain st1 where s1: "sc_serveSubChannel j st = Inr st1"
    and r: "sc_forSubChannels rest st1 = Inr st'"
    by (auto split: sum.splits)
  from Cons.prems(2) have j: "j < length (sc_subChannels st)" by simp
  note a = sc_serve_queued[OF s1 j]
  from a Cons.prems(2) have "\<forall>i \<in> set rest. i < length (sc_subChannels st1)" by simp
  from Cons.IH[OF r this] a show ?case by auto
qed

subsection \<open>The loop, runSimulation, displayResults, main\<close>

text \<open>
  One iteration of \<open>while (true)\<close> in \<open>runSimulation\<close> up to its last statement: the
  flag is set, then the \<open>for\<close> loop visits every sub-channel.
\<close>

definition sc_pass :: "sc_WiFiSimulation \<Rightarrow> sc_error + sc_WiFiSimulation" where
  "sc_pass st =
     sc_forSubChannels [0 ..< length (sc_subChannels st)] (st\<lparr>sc_allQueuesEmpty := True\<rparr>)"

text \<open>
  The loop itself: a pass, then the test
  \<open>allQueuesEmpty || currentTime >= MAX_SIMULATION_TIME\<close>.
\<close>

function sc_whileLoop :: "sc_WiFiSimulation \<Rightarrow> sc_error + sc_WiFiSimulation" where
  "sc_whileLoop st =
     (case sc_pass st of
        Inl e \<Rightarrow> Inl e
      | Inr st' \<Rightarrow>
          if sc_allQueuesEmpty st' \<or> sc_currentTime st' \<ge> real_of_int sc_MAX_SIMULATION_TIME
          then Inr st'
          else sc_whileLoop st')"
  by pat_completeness auto
termination
proof (relation "measure sc_queued")
  show "wf (measure sc_queued)" by simp
next
  fix st st' :: sc_WiFiSimulation
  assume run: "sc_pass st = Inr st'"
    and go: "\<not> (sc_allQueuesEmpty st' \<or> real_of_int sc_MAX_SIMULATION_TIME \<le> sc_currentTime st')"
  have "\<forall>j \<in> set [0 ..< length (sc_subChannels st)]. j < length (sc_subChannels (st\<lparr>sc_allQueuesEmpty := True\<rparr>))"
    by simp
  from sc_forSubChannels_queued[OF run[unfolded sc_pass_def] this] go
  have "sc_queued st' < sc_queued (st\<lparr>sc_allQueuesEmpty := True\<rparr>)" by simp
  then show "(st', st) \<in> measure sc_queued"
    by (simp add: sc_queued_def)
qed

declare sc_whileLoop.simps [simp del]

text \<open>
  \<open>runSimulation\<close>: first the clock is set to 0 and every user generates its packets
  (\<open>sc_prepared\<close>), then the loop runs, then \<open>totalTime = currentTime\<close>. Nothing in the
  \<open>try\<close> block throws, so the \<open>catch\<close> block is dead; an \<open>Inl\<close> result is undefined
  behaviour of the program, not an exception.
\<close>

definition sc_prepared :: "int \<Rightarrow> sc_WiFiSimulation \<Rightarrow> sc_WiFiSimulation" where
  "sc_prepared packetsPerUser st =
     (let st0 = st\<lparr>sc_currentTime := 0\<rparr>
      in st0\<lparr>sc_users := map (sc_generatePackets packetsPerUser (sc_currentTime st0)) (sc_users st0)\<rparr>)"

definition sc_runSimulation :: "int \<Rightarrow> sc_WiFiSimulation \<Rightarrow> sc_error + sc_WiFiSimulation" where
  "sc_runSimulation packetsPerUser st =
     (case sc_whileLoop (sc_prepared packetsPerUser st) of
        Inl e \<Rightarrow> Inl e
      | Inr st2 \<Rightarrow> Inr (st2\<lparr>sc_totalTime := sc_currentTime st2\<rparr>))"

text \<open>
  The states in which a run from the constructor reaches the head of the loop: the one
  after the packets are generated, and each one from which the loop goes round again.
\<close>

inductive sc_loopHead :: "int \<Rightarrow> int \<Rightarrow> sc_WiFiSimulation \<Rightarrow> bool"
  for numUsers :: int and packetsPerUser :: int where
  entry: "sc_loopHead numUsers packetsPerUser (sc_prepared packetsPerUser (sc_mkWiFiSimulation numUsers))"
| again: "sc_loopHead numUsers packetsPerUser st \<Longrightarrow> sc_pass st = Inr st' \<Longrightarrow>
     \<not> (sc_allQueuesEmpty st' \<or> sc_currentTime st' \<ge> real_of_int sc_MAX_SIMULATION_TIME) \<Longrightarrow>
     sc_loopHead numUsers packetsPerUser st'"

text \<open>
  \<open>displayResults\<close>: the values handed to \<open>cout\<close>, before formatting. \<open>Inl\<close> is the
  path through the \<open>catch\<close> block, which prints an error message and none of the metrics.
\<close>

record sc_Report =
  sc_shownThroughputMbps :: real
  sc_shownAverageLatencyMs :: real
  sc_shownMaximumLatencyMs :: real
  sc_shownDroppedPackets :: int

definition sc_throughput :: "sc_WiFiSimulation \<Rightarrow> real" where
  "sc_throughput st =
     real_of_int (sc_totalPackets st * sc_PACKET_SIZE_BYTES * 8) / sc_totalTime st"

definition sc_displayResults :: "sc_WiFiSimulation \<Rightarrow> int \<Rightarrow> sc_error + sc_Report" where
  "sc_displayResults st numUsers =
     (if sc_totalPackets st = 0 then Inl NoPacketsTransmittedSc
      else
        let throughput = sc_throughput st;
            avgLatency = (if sc_totalPackets st > 0
                          then sc_totalLatency st / real_of_int (sc_totalPackets st) else 0)
        in Inr \<lparr>sc_shownThroughputMbps = (throughput / 1000000) / real_of_int numUsers + 1,
                sc_shownAverageLatencyMs = avgLatency * 1000,
                sc_shownMaximumLatencyMs =
                  (if numUsers = 1 then avgLatency * 1000 else sc_maxLatency st * 1000),
                sc_shownDroppedPackets = sc_totalDroppedPackets st\<rparr>)"

text \<open>
  \<open>main\<close>: one simulation per entry of \<open>userCounts\<close>. A run that ends in undefined
  behaviour has no defined continuation, so the list stops there.
\<close>

fun sc_mainLoop :: "int \<Rightarrow> int list \<Rightarrow> (sc_error + sc_Report) list" where
  "sc_mainLoop packetsPerUser [] = []"
| "sc_mainLoop packetsPerUser (numUsers # rest) =
     (case sc_runSimulation packetsPerUser (sc_mkWiFiSimulation numUsers) of
        Inl e \<Rightarrow> [Inl e]
      | Inr simulation \<Rightarrow> sc_displayResults simulation numUsers # sc_mainLoop packetsPerUser rest)"

definition sc_main :: "(sc_error + sc_Report) list" where
  "sc_main = (let userCounts = [1, 10, 100]; packetsPerUser = 10 in sc_mainLoop packetsPerUser userCounts)"

subsection \<open>The round-robin invariant of the sub-channel variant\<close>

text \<open>
  In a run every queue holds the packets \<open>h, h + 1, ..., K - 1\<close> of the burst generated
  at time 0, for some position \<open>h\<close>; \<open>K\<close> is the length of the burst. The invariant is
  stated on the positions \<open>H v\<close> of the users \<open>v\<close>, in the cyclic order that starts at
  the round-robin pointer \<open>rr\<close>. \<open>sc_expired t j\<close> says that the first \<open>j\<close> packets of
  the burst have all timed out at time \<open>t\<close>.
\<close>

definition sc_expired :: "real \<Rightarrow> nat \<Rightarrow> bool" where
  "sc_expired t j = (j = 0 \<or> t - real (j - 1) * (1 / 100) > sc_TIMEOUT_LIMIT)"

lemma sc_expired_mono: "t \<le> t' \<Longrightarrow> sc_expired t j \<Longrightarrow> sc_expired t' j"
  by (auto simp: sc_expired_def)

lemma sc_expired_down: "j' \<le> j \<Longrightarrow> sc_expired t j \<Longrightarrow> sc_expired t j'"
proof -
  assume a: "j' \<le> j" "sc_expired t j"
  show ?thesis
  proof (cases "j' = 0")
    case True
    then show ?thesis by (simp add: sc_expired_def)
  next
    case False
    with a(1) have nz: "j \<noteq> 0" by simp
    from a(1) have "j' - 1 \<le> j - 1" by simp
    then have "real (j' - 1) \<le> real (j - 1)" by (rule iffD2[OF of_nat_le_iff])
    then have le: "real (j' - 1) * (1 / 100) \<le> real (j - 1) * (1 / 100)" by simp
    from a(2) nz have "t - real (j - 1) * (1 / 100) > sc_TIMEOUT_LIMIT"
      unfolding sc_expired_def by blast
    with le have "t - real (j' - 1) * (1 / 100) > sc_TIMEOUT_LIMIT" by linarith
    then show ?thesis unfolding sc_expired_def by blast
  qed
qed

definition rr_sorted :: "nat \<Rightarrow> nat \<Rightarrow> (nat \<Rightarrow> nat) \<Rightarrow> bool" where
  "rr_sorted n rr H = (\<forall>i j. 1 \<le> i \<and> i \<le> j \<and> j < n \<longrightarrow> H ((rr + i) mod n) \<le> H ((rr + j) mod n))"

definition rr_bound :: "nat \<Rightarrow> nat \<Rightarrow> (nat \<Rightarrow> nat) \<Rightarrow> real \<Rightarrow> bool" where
  "rr_bound n rr H t = (\<forall>v < n. H v \<le> H rr + 1 \<or> sc_expired t (H v - 1))"

definition rr_lead :: "nat \<Rightarrow> nat \<Rightarrow> (nat \<Rightarrow> nat) \<Rightarrow> real \<Rightarrow> bool" where
  "rr_lead n rr H t = (2 \<le> n \<longrightarrow> H rr \<le> H ((rr + 1) mod n) \<or> sc_expired t (H rr))"

definition rr_inv :: "nat \<Rightarrow> nat \<Rightarrow> nat \<Rightarrow> (nat \<Rightarrow> nat) \<Rightarrow> real \<Rightarrow> bool" where
  "rr_inv n K rr H t =
     (rr < n \<and> (\<forall>v < n. H v \<le> K) \<and> rr_sorted n rr H \<and> rr_bound n rr H t \<and> rr_lead n rr H t)"

lemma rr_offset_ne:
  fixes rr n i :: nat
  assumes "rr < n" "1 \<le> i" "i < n"
  shows "(rr + i) mod n \<noteq> rr"
proof
  assume e: "(rr + i) mod n = rr"
  have "(rr + i) mod n = (if rr + i < n then rr + i else rr + i - n)"
    using assms by (simp add: mod_if)
  with e assms show False by (auto split: if_splits)
qed

lemma rr_offset_ex:
  fixes rr n v :: nat
  assumes "rr < n" "v < n" "v \<noteq> rr"
  shows "\<exists>i. 1 \<le> i \<and> i < n \<and> (rr + i) mod n = v"
proof (cases "rr < v")
  case True
  with assms have "1 \<le> v - rr \<and> v - rr < n \<and> (rr + (v - rr)) mod n = v" by auto
  then show ?thesis by blast
next
  case False
  with assms have "1 \<le> n + v - rr \<and> n + v - rr < n \<and> (rr + (n + v - rr)) mod n = v" by auto
  then show ?thesis by blast
qed

lemma rr_offset_shift: "((rr + 1) mod n + i) mod n = (rr + Suc i) mod (n::nat)"
  by (simp add: mod_add_left_eq)

lemma rr_offset_wrap: "rr < n \<Longrightarrow> (rr + n) mod n = (rr::nat)"
  by simp


lemma rr_next_ne:
  fixes rr n :: nat
  assumes "rr < n" "2 \<le> n"
  shows "(rr + 1) mod n \<noteq> rr"
  using rr_offset_ne[of rr n 1] assms by simp

lemma rr_next_next:
  fixes rr n :: nat
  shows "((rr + 1) mod n + 1) mod n = (rr + 2) mod n"
  using rr_offset_shift[of rr n 1] by simp

lemma rr_two_empty:
  assumes inv: "rr_inv n K rr H t" and e: "H rr = K" "H ((rr + 1) mod n) = K"
  shows "\<forall>v < n. H v = K"
proof (intro allI impI)
  fix v assume v: "v < n"
  from inv have rr: "rr < n" and le: "\<forall>v < n. H v \<le> K" and S: "rr_sorted n rr H"
    by (simp_all add: rr_inv_def)
  show "H v = K"
  proof (cases "v = rr")
    case True
    with e show ?thesis by simp
  next
    case False
    from rr_offset_ex[OF rr v False] obtain i where i: "1 \<le> i" "i < n" "(rr + i) mod n = v"
      by blast
    from S i have "H ((rr + 1) mod n) \<le> H v"
      unfolding rr_sorted_def by (metis order_refl)
    with e le v show ?thesis by (simp add: le_antisym)
  qed
qed

lemma rr_inv_advance_empty:
  assumes inv: "rr_inv n K rr H t" and e: "H rr = K" and tt: "t \<le> t'"
  shows "rr_inv n K ((rr + 1) mod n) H t'"
proof -
  from inv have rr: "rr < n" and le: "\<forall>v < n. H v \<le> K" and S: "rr_sorted n rr H"
    and B: "rr_bound n rr H t" and L: "rr_lead n rr H t"
    by (simp_all add: rr_inv_def)
  from rr have n0: "0 < n" by simp
  have S': "rr_sorted n ((rr + 1) mod n) H"
    unfolding rr_sorted_def
  proof (intro allI impI)
    fix i j assume ij: "1 \<le> i \<and> i \<le> j \<and> j < n"
    show "H (((rr + 1) mod n + i) mod n) \<le> H (((rr + 1) mod n + j) mod n)"
    proof (cases "Suc j < n")
      case True
      with ij S[unfolded rr_sorted_def, rule_format, of "Suc i" "Suc j"]
      have "H ((rr + Suc i) mod n) \<le> H ((rr + Suc j) mod n)" by simp
      then show ?thesis unfolding rr_offset_shift .
    next
      case False
      with ij have "Suc j = n" by simp
      then have "(rr + Suc j) mod n = rr" using rr by simp
      moreover have "(rr + Suc i) mod n < n" using n0 by simp
      ultimately show ?thesis
        unfolding rr_offset_shift using le e by simp
    qed
  qed
  have B': "rr_bound n ((rr + 1) mod n) H t'"
    unfolding rr_bound_def
  proof (intro allI impI)
    fix v assume v: "v < n"
    show "H v \<le> H ((rr + 1) mod n) + 1 \<or> sc_expired t' (H v - 1)"
    proof (cases "2 \<le> n")
      case False
      with rr have "n = 1" "rr = 0" by simp_all
      with v e le show ?thesis by simp
    next
      case True
      with L e have "K \<le> H ((rr + 1) mod n) \<or> sc_expired t K"
        by (simp add: rr_lead_def)
      then show ?thesis
      proof
        assume "K \<le> H ((rr + 1) mod n)"
        with le v show ?thesis by (metis le_trans le_add1)
      next
        assume "sc_expired t K"
        then have "sc_expired t' K" using tt by (rule sc_expired_mono[rotated])
        moreover from le v have "H v \<le> K" by blast
        then have "H v - 1 \<le> K" by simp
        ultimately show ?thesis using sc_expired_down by blast
      qed
    qed
  qed
  have L': "rr_lead n ((rr + 1) mod n) H t'"
    unfolding rr_lead_def
  proof
    assume n2: "2 \<le> n"
    show "H ((rr + 1) mod n) \<le> H (((rr + 1) mod n + 1) mod n) \<or> sc_expired t' (H ((rr + 1) mod n))"
    proof (cases "n = 2")
      case True
      then have "(rr + 2) mod n = rr" using rr by simp
      moreover have "(rr + 1) mod n < n" using n0 by simp
      ultimately show ?thesis unfolding rr_next_next using le e by simp
    next
      case False
      with n2 have "(1::nat) \<le> 1 \<and> (1::nat) \<le> 2 \<and> 2 < n" by simp
      with S have "H ((rr + 1) mod n) \<le> H ((rr + 2) mod n)"
        unfolding rr_sorted_def by blast
      then show ?thesis unfolding rr_next_next by simp
    qed
  qed
  from n0 le S' B' L' show ?thesis by (simp add: rr_inv_def)
qed

lemma rr_inv_drop:
  assumes inv: "rr_inv n K rr H t" and lt: "H rr < K" and tt: "t \<le> t'"
    and ex: "sc_expired t' (H rr + 1)"
  shows "rr_inv n K rr (H(rr := H rr + 1)) t'"
proof -
  from inv have rr: "rr < n" and le: "\<forall>v < n. H v \<le> K" and S: "rr_sorted n rr H"
    and B: "rr_bound n rr H t" and L: "rr_lead n rr H t"
    by (simp_all add: rr_inv_def)
  have le': "\<forall>v < n. (H(rr := H rr + 1)) v \<le> K" using le lt by simp
  have S': "rr_sorted n rr (H(rr := H rr + 1))"
    unfolding rr_sorted_def
  proof (intro allI impI)
    fix i j assume ij: "1 \<le> i \<and> i \<le> j \<and> j < n"
    then have "(rr + i) mod n \<noteq> rr" "(rr + j) mod n \<noteq> rr"
      using rr_offset_ne[OF rr] by simp_all
    with S ij show "(H(rr := H rr + 1)) ((rr + i) mod n) \<le> (H(rr := H rr + 1)) ((rr + j) mod n)"
      unfolding rr_sorted_def by simp
  qed
  have B': "rr_bound n rr (H(rr := H rr + 1)) t'"
    unfolding rr_bound_def
  proof (intro allI impI)
    fix v assume v: "v < n"
    show "(H(rr := H rr + 1)) v \<le> (H(rr := H rr + 1)) rr + 1 \<or> sc_expired t' ((H(rr := H rr + 1)) v - 1)"
    proof (cases "v = rr")
      case True
      then show ?thesis by simp
    next
      case False
      from B v have "H v \<le> H rr + 1 \<or> sc_expired t (H v - 1)" by (simp add: rr_bound_def)
      then show ?thesis
      proof
        assume "H v \<le> H rr + 1"
        with False show ?thesis by simp
      next
        assume "sc_expired t (H v - 1)"
        then have "sc_expired t' (H v - 1)" using tt by (rule sc_expired_mono[rotated])
        with False show ?thesis by simp
      qed
    qed
  qed
  have L': "rr_lead n rr (H(rr := H rr + 1)) t'"
    unfolding rr_lead_def using ex by simp
  from rr le' S' B' L' show ?thesis by (simp add: rr_inv_def)
qed


lemma rr_inv_transmit:
  assumes inv: "rr_inv n K rr H t" and lt: "H rr < K" and t1: "t \<le> t1"
    and nex: "\<not> sc_expired t1 (H rr + 1)" and t2: "t1 \<le> t2"
  shows "rr_inv n K ((rr + 1) mod n) (H(rr := H rr + 1)) t2"
proof -
  let ?H = "H(rr := H rr + 1)"
  let ?r = "(rr + 1) mod n"
  from inv have rr: "rr < n" and le: "\<forall>v < n. H v \<le> K" and S: "rr_sorted n rr H"
    and B: "rr_bound n rr H t" and L: "rr_lead n rr H t"
    by (simp_all add: rr_inv_def)
  from rr have n0: "0 < n" by simp
  have near: "H v \<le> H rr + 1" if v: "v < n" for v
  proof -
    from B v have "H v \<le> H rr + 1 \<or> sc_expired t (H v - 1)" by (simp add: rr_bound_def)
    then show ?thesis
    proof
      assume "sc_expired t (H v - 1)"
      then have x: "sc_expired t1 (H v - 1)" using t1 by (rule sc_expired_mono[rotated])
      show ?thesis
      proof (rule ccontr)
        assume "\<not> H v \<le> H rr + 1"
        then have "H rr + 1 \<le> H v - 1" by simp
        from sc_expired_down[OF this x] nex show False by simp
      qed
    qed
  qed
  have le': "\<forall>v < n. ?H v \<le> K" using le lt by simp
  have S': "rr_sorted n ?r ?H"
    unfolding rr_sorted_def
  proof (intro allI impI)
    fix i j assume ij: "1 \<le> i \<and> i \<le> j \<and> j < n"
    show "?H ((?r + i) mod n) \<le> ?H ((?r + j) mod n)"
    proof (cases "Suc j < n")
      case True
      with ij have "(rr + Suc i) mod n \<noteq> rr" "(rr + Suc j) mod n \<noteq> rr"
        using rr_offset_ne[OF rr, of "Suc i"] rr_offset_ne[OF rr, of "Suc j"] by simp_all
      moreover from True ij S[unfolded rr_sorted_def, rule_format, of "Suc i" "Suc j"]
      have "H ((rr + Suc i) mod n) \<le> H ((rr + Suc j) mod n)" by simp
      ultimately show ?thesis unfolding rr_offset_shift by simp
    next
      case False
      with ij have "Suc j = n" by simp
      then have j: "(rr + Suc j) mod n = rr" using rr by simp
      have "(rr + Suc i) mod n < n" using n0 by simp
      from near[OF this] have "?H ((rr + Suc i) mod n) \<le> H rr + 1" by simp
      with j show ?thesis unfolding rr_offset_shift by simp
    qed
  qed
  have B': "rr_bound n ?r ?H t2"
    unfolding rr_bound_def
  proof (intro allI impI)
    fix v assume v: "v < n"
    from near[OF v] have hv: "?H v \<le> H rr + 1" by simp
    show "?H v \<le> ?H ?r + 1 \<or> sc_expired t2 (?H v - 1)"
    proof (cases "2 \<le> n")
      case False
      with rr have "n = 1" "rr = 0" by simp_all
      with v show ?thesis by simp
    next
      case True
      from rr_next_ne[OF rr True] have r: "?H ?r = H ?r" by simp
      from L True have "H rr \<le> H ?r \<or> sc_expired t (H rr)" by (simp add: rr_lead_def)
      then show ?thesis
      proof
        assume "H rr \<le> H ?r"
        with hv r show ?thesis by simp
      next
        assume "sc_expired t (H rr)"
        then have "sc_expired t1 (H rr)" using t1 by (rule sc_expired_mono[rotated])
        then have "sc_expired t2 (H rr)" using t2 by (rule sc_expired_mono[rotated])
        moreover from hv have "?H v - 1 \<le> H rr" by simp
        ultimately have "sc_expired t2 (?H v - 1)" using sc_expired_down by blast
        then show ?thesis by simp
      qed
    qed
  qed
  have L': "rr_lead n ?r ?H t2"
    unfolding rr_lead_def
  proof
    assume n2: "2 \<le> n"
    from rr_next_ne[OF rr n2] have r: "?H ?r = H ?r" by simp
    have rn: "?r < n" using n0 by simp
    show "?H ?r \<le> ?H ((?r + 1) mod n) \<or> sc_expired t2 (?H ?r)"
    proof (cases "n = 2")
      case True
      then have "(rr + 2) mod n = rr" using rr by simp
      with near[OF rn] r show ?thesis unfolding rr_next_next by simp
    next
      case False
      with n2 have n3: "2 < n" by simp
      then have "(rr + 2) mod n \<noteq> rr" using rr_offset_ne[OF rr, of 2] by simp
      moreover from n3 S[unfolded rr_sorted_def, rule_format, of 1 2]
      have "H ((rr + 1) mod n) \<le> H ((rr + 2) mod n)" by simp
      ultimately show ?thesis unfolding rr_next_next using r by simp
    qed
  qed
  from n0 le' S' B' L' show ?thesis by (simp add: rr_inv_def)
qed

definition sc_fresh :: "real \<Rightarrow> nat \<Rightarrow> sc_Packet" where
  "sc_fresh t i = sc_mkPacket (int i) (t + real_of_int (int i) * (1 / 100))"

lemma sc_generateStep_full:
  "sc_MAX_QUEUE_SIZE \<le> int (length (sc_packetQueue u)) \<Longrightarrow>
     sc_generateStep t i u = u\<lparr>sc_droppedPackets := sc_droppedPackets u + 1\<rparr>"
  by (simp add: sc_generateStep_def)

lemma sc_generateStep_room:
  "int (length (sc_packetQueue u)) < sc_MAX_QUEUE_SIZE \<Longrightarrow>
     sc_generateStep t (int i) u = u\<lparr>sc_packetQueue := sc_packetQueue u @ [sc_fresh t i]\<rparr>"
  by (simp add: sc_generateStep_def sc_fresh_def)

lemma sc_generate_fold:
  "fold (sc_generateStep t) (map int [0 ..< m]) u =
     u\<lparr>sc_packetQueue := sc_packetQueue u @ map (sc_fresh t) [0 ..< min m (50 - length (sc_packetQueue u))],
       sc_droppedPackets := sc_droppedPackets u + int (m - min m (50 - length (sc_packetQueue u)))\<rparr>"
proof (induction m)
  case 0
  then show ?case by simp
next
  case (Suc m)
  let ?l = "length (sc_packetQueue u)"
  let ?u = "u\<lparr>sc_packetQueue := sc_packetQueue u @ map (sc_fresh t) [0 ..< min m (50 - ?l)],
       sc_droppedPackets := sc_droppedPackets u + int (m - min m (50 - ?l))\<rparr>"
  have step: "fold (sc_generateStep t) (map int [0 ..< Suc m]) u = sc_generateStep t (int m) ?u"
    using Suc.IH by simp
  show ?case
  proof (cases "m < 50 - ?l")
    case True
    then have "int (length (sc_packetQueue ?u)) < sc_MAX_QUEUE_SIZE"
      by (simp add: sc_MAX_QUEUE_SIZE_def)
    from sc_generateStep_room[OF this] True show ?thesis
      unfolding step by simp
  next
    case False
    then have "sc_MAX_QUEUE_SIZE \<le> int (length (sc_packetQueue ?u))"
      by (simp add: sc_MAX_QUEUE_SIZE_def)
    from sc_generateStep_full[OF this] False show ?thesis
      unfolding step by (simp add: Suc_diff_le)
  qed
qed

lemma sc_generatePackets_closed:
  "sc_generatePackets numPackets t u =
     u\<lparr>sc_packetQueue := sc_packetQueue u @
          map (sc_fresh t) [0 ..< min (nat numPackets) (50 - length (sc_packetQueue u))],
       sc_droppedPackets := sc_droppedPackets u
          + int (nat numPackets - min (nat numPackets) (50 - length (sc_packetQueue u)))\<rparr>"
  by (simp add: sc_generatePackets_def sc_generate_fold)

definition sc_planned :: "nat \<Rightarrow> nat \<Rightarrow> sc_Packet list" where
  "sc_planned K h = map (sc_fresh 0) [h ..< K]"

definition sc_pos :: "nat \<Rightarrow> sc_WiFiSimulation \<Rightarrow> nat \<Rightarrow> nat" where
  "sc_pos K st v = K - length (sc_packetQueue (sc_users st ! v))"

definition sc_runInv :: "nat \<Rightarrow> sc_WiFiSimulation \<Rightarrow> bool" where
  "sc_runInv K st =
     (2 \<le> length (sc_subChannels st)
      \<and> (\<forall>c \<in> set (sc_subChannels st).
            \<not> sc_busy c \<and> 0 < sc_bandwidth c \<and> sc_transmissionTime c \<le> 1)
      \<and> sc_currentTime st \<le> 2 + real K * (1 / 100)
      \<and> (\<forall>v < length (sc_users st). \<exists>h \<le> K. sc_packetQueue (sc_users st ! v) = sc_planned K h)
      \<and> rr_inv (length (sc_users st)) K (sc_currentRoundRobinUser st) (sc_pos K st) (sc_currentTime st))"

lemma sc_planned_length: "length (sc_planned K h) = K - h"
  by (simp add: sc_planned_def)

lemma sc_planned_Nil: "h \<le> K \<Longrightarrow> (sc_planned K h = []) = (h = K)"
  by (auto simp: sc_planned_def)

lemma sc_planned_Cons: "h < K \<Longrightarrow> sc_planned K h = sc_fresh 0 h # sc_planned K (Suc h)"
  by (simp add: sc_planned_def upt_conv_Cons)

lemma sc_fresh_arrival: "sc_arrivalTime (sc_fresh 0 h) = real h * (1 / 100)"
  by (simp add: sc_fresh_def sc_mkPacket_def)

lemma sc_transmissionTime_nonneg:
  "0 < sc_bandwidth c \<Longrightarrow> 0 < sc_transmissionTime c"
  by (simp add: sc_transmissionTime_def sc_calculateDataRate_def sc_PACKET_SIZE_BYTES_def
      sc_MODULATION_BITS_def sc_CODING_RATE_def)

lemma sc_pos_users_update:
  assumes "rr < length (sc_users st)" "sc_users st' = (sc_users st)[rr := u']"
    and "sc_packetQueue (sc_users st ! rr) = sc_planned K h" "h < K"
    and "sc_packetQueue u' = sc_planned K (Suc h)"
  shows "sc_pos K st' = (sc_pos K st)(rr := sc_pos K st rr + 1)"
proof
  fix v
  show "sc_pos K st' v = ((sc_pos K st)(rr := sc_pos K st rr + 1)) v"
  proof (cases "v = rr")
    case True
    with assms show ?thesis by (simp add: sc_pos_def sc_planned_length)
  next
    case False
    with assms show ?thesis by (simp add: sc_pos_def)
  qed
qed

lemma sc_pos_users_same:
  "sc_users st' = sc_users st \<Longrightarrow> sc_pos K st' = sc_pos K st"
  by (rule ext) (simp add: sc_pos_def)

lemma sc_expired_head:
  "sc_expired t (Suc h) = (t - sc_arrivalTime (sc_fresh 0 h) > sc_TIMEOUT_LIMIT)"
  by (simp add: sc_expired_def sc_fresh_arrival)

lemma sc_serve_inv:
  assumes inv: "sc_runInv K st" and j: "j < length (sc_subChannels st)"
  shows "\<exists>st'. sc_serveSubChannel j st = Inr st' \<and> sc_runInv K st'
           \<and> sc_currentTime st \<le> sc_currentTime st'
           \<and> (sc_allQueuesEmpty st' =
                (sc_allQueuesEmpty st \<and> sc_packetQueue (sc_users st ! sc_currentRoundRobinUser st) = []))
           \<and> (sc_packetQueue (sc_users st ! sc_currentRoundRobinUser st) = [] \<longrightarrow>
                sc_users st' = sc_users st
                \<and> sc_currentRoundRobinUser st' = (sc_currentRoundRobinUser st + 1) mod length (sc_users st))"
proof -
  let ?n = "length (sc_users st)"
  let ?rr = "sc_currentRoundRobinUser st"
  let ?u = "sc_users st ! ?rr"
  let ?t = "sc_currentTime st"
  from inv have chans: "2 \<le> length (sc_subChannels st)"
      "\<forall>c \<in> set (sc_subChannels st). \<not> sc_busy c \<and> 0 < sc_bandwidth c \<and> sc_transmissionTime c \<le> 1"
    and tb: "?t \<le> 2 + real K * (1 / 100)"
    and shape: "\<forall>v < ?n. \<exists>h \<le> K. sc_packetQueue (sc_users st ! v) = sc_planned K h"
    and R: "rr_inv ?n K ?rr (sc_pos K st) ?t"
    by (simp_all add: sc_runInv_def)
  from R have rr: "?rr < ?n" by (simp add: rr_inv_def)
  from chans(2) j have free: "\<not> sc_busy (sc_subChannels st ! j)" and bw: "0 < sc_bandwidth (sc_subChannels st ! j)"
    and tt1: "sc_transmissionTime (sc_subChannels st ! j) \<le> 1"
    by simp_all
  from shape rr obtain h where h: "h \<le> K" "sc_packetQueue ?u = sc_planned K h" by blast
  then have pos: "sc_pos K st ?rr = h" by (simp add: sc_pos_def sc_planned_length)
  show ?thesis
  proof (cases "h = K")
    case True
    with h have e: "sc_packetQueue ?u = []" by (simp add: sc_planned_Nil)
    let ?st' = "st\<lparr>sc_currentRoundRobinUser := (?rr + 1) mod ?n\<rparr>"
    have s: "sc_serveSubChannel j st = Inr ?st'" by (rule sc_serve_empty[OF free rr e])
    have p: "sc_pos K ?st' = sc_pos K st" by (rule sc_pos_users_same) simp
    from rr_inv_advance_empty[OF R _ order_refl] pos True
    have "rr_inv ?n K ((?rr + 1) mod ?n) (sc_pos K st) ?t" by simp
    with chans tb shape p have "sc_runInv K ?st'" by (simp add: sc_runInv_def)
    with s e show ?thesis by simp
  next
    case False
    with h have hK: "h < K" by simp
    from sc_planned_Cons[OF hK] h
    have q: "sc_packetQueue ?u = sc_fresh 0 h # sc_planned K (Suc h)" by simp
    then have ne: "sc_packetQueue ?u \<noteq> []" and hd: "hd (sc_packetQueue ?u) = sc_fresh 0 h"
      and tl: "tl (sc_packetQueue ?u) = sc_planned K (Suc h)" by simp_all
    let ?a = "sc_arrivalTime (hd (sc_packetQueue ?u))"
    let ?t1 = "max ?t ?a"
    have t1: "?t \<le> ?t1" by simp
    from hK have "real h \<le> real K" by simp
    then have ab: "?a \<le> real K * (1 / 100)" by (simp add: hd sc_fresh_arrival)
    with tb have tb1: "?t1 \<le> 2 + real K * (1 / 100)" by simp
    show ?thesis
    proof (cases "?t1 - ?a > sc_TIMEOUT_LIMIT")
      case True
      let ?u' = "?u\<lparr>sc_packetQueue := tl (sc_packetQueue ?u), sc_droppedPackets := sc_droppedPackets ?u + 1\<rparr>"
      let ?st' = "st\<lparr>sc_allQueuesEmpty := False, sc_currentTime := ?t1,
                     sc_users := (sc_users st)[?rr := ?u'],
                     sc_totalDroppedPackets := sc_totalDroppedPackets st + 1\<rparr>"
      have s: "sc_serveSubChannel j st = Inr ?st'" by (rule sc_serve_timeout[OF free rr ne True])
      have u1: "sc_users ?st' = (sc_users st)[?rr := ?u']" by simp
      have u2: "sc_packetQueue ?u' = sc_planned K (Suc h)" by (simp add: tl)
      have p: "sc_pos K ?st' = (sc_pos K st)(?rr := sc_pos K st ?rr + 1)"
        by (rule sc_pos_users_update[OF rr u1 h(2) hK u2])
      from True have "sc_expired ?t1 (sc_pos K st ?rr + 1)"
        by (simp add: pos sc_expired_head hd)
      from rr_inv_drop[OF R _ t1 this] pos hK
      have R': "rr_inv ?n K ?rr ((sc_pos K st)(?rr := sc_pos K st ?rr + 1)) ?t1" by simp
      have shape': "\<forall>v < ?n. \<exists>h \<le> K. sc_packetQueue ((sc_users st)[?rr := ?u'] ! v) = sc_planned K h"
      proof (intro allI impI)
        fix v assume v: "v < ?n"
        show "\<exists>h \<le> K. sc_packetQueue ((sc_users st)[?rr := ?u'] ! v) = sc_planned K h"
        proof (cases "v = ?rr")
          case True
          with rr hK tl show ?thesis by (auto intro: exI[of _ "Suc h"])
        next
          case False
          with shape v show ?thesis by simp
        qed
      qed
      from chans tb1 shape' R' p have "sc_runInv K ?st'" by (simp add: sc_runInv_def)
      with s ne show ?thesis by simp
    next
      case False
      let ?tt = "sc_transmissionTime (sc_subChannels st ! j)"
      let ?u' = "?u\<lparr>sc_packetQueue := tl (sc_packetQueue ?u)\<rparr>"
      let ?st' = "st\<lparr>sc_allQueuesEmpty := False,
             sc_totalLatency := sc_totalLatency st + (?t1 + ?tt - ?a),
             sc_maxLatency := max (sc_maxLatency st) (?t1 + ?tt - ?a),
             sc_totalPackets := sc_totalPackets st + 1,
             sc_sentLog := sc_sentLog st @
               [(hd (sc_packetQueue ?u))\<lparr>sc_transmissionStartTime := ?t1, sc_transmissionEndTime := ?t1 + ?tt\<rparr>],
             sc_currentTime := ?t1 + ?tt,
             sc_users := (sc_users st)[?rr := ?u'],
             sc_currentRoundRobinUser := (?rr + 1) mod ?n\<rparr>"
      have s: "sc_serveSubChannel j st = Inr ?st'" by (rule sc_serve_transmit[OF free j rr ne False])
      have u1: "sc_users ?st' = (sc_users st)[?rr := ?u']" by simp
      have u2: "sc_packetQueue ?u' = sc_planned K (Suc h)" by (simp add: tl)
      have p: "sc_pos K ?st' = (sc_pos K st)(?rr := sc_pos K st ?rr + 1)"
        by (rule sc_pos_users_update[OF rr u1 h(2) hK u2])
      from sc_transmissionTime_nonneg[OF bw] have t2: "?t1 \<le> ?t1 + ?tt" by simp
      from False have "\<not> sc_expired ?t1 (sc_pos K st ?rr + 1)"
        by (simp add: pos sc_expired_head hd)
      from rr_inv_transmit[OF R _ t1 this t2] pos hK
      have R': "rr_inv ?n K ((?rr + 1) mod ?n) ((sc_pos K st)(?rr := sc_pos K st ?rr + 1)) (?t1 + ?tt)" by simp
      have shape': "\<forall>v < ?n. \<exists>h \<le> K. sc_packetQueue ((sc_users st)[?rr := ?u'] ! v) = sc_planned K h"
      proof (intro allI impI)
        fix v assume v: "v < ?n"
        show "\<exists>h \<le> K. sc_packetQueue ((sc_users st)[?rr := ?u'] ! v) = sc_planned K h"
        proof (cases "v = ?rr")
          case True
          with rr hK tl show ?thesis by (auto intro: exI[of _ "Suc h"])
        next
          case False
          with shape v show ?thesis by simp
        qed
      qed
      from False ab tt1 have tb2: "?t1 + ?tt \<le> 2 + real K * (1 / 100)"
        by (simp add: sc_TIMEOUT_LIMIT_def)
      from chans tb2 shape' R' p have "sc_runInv K ?st'" by (simp add: sc_runInv_def)
      moreover from t1 t2 have "?t \<le> ?t1 + ?tt" by linarith
      ultimately show ?thesis using s ne by simp
    qed
  qed
qed

lemma sc_runInv_flag: "sc_runInv K (st\<lparr>sc_allQueuesEmpty := b\<rparr>) = sc_runInv K st"
proof -
  have "sc_pos K (st\<lparr>sc_allQueuesEmpty := b\<rparr>) = sc_pos K st"
    by (rule sc_pos_users_same) simp
  then show ?thesis by (simp add: sc_runInv_def)
qed

lemma sc_runInv_all_empty:
  assumes inv: "sc_runInv K st"
    and e0: "sc_packetQueue (sc_users st ! sc_currentRoundRobinUser st) = []"
    and e1: "sc_packetQueue (sc_users st ! ((sc_currentRoundRobinUser st + 1) mod length (sc_users st))) = []"
  shows "\<forall>u \<in> set (sc_users st). sc_packetQueue u = []"
proof -
  let ?n = "length (sc_users st)"
  from inv have shape: "\<forall>v < ?n. \<exists>h \<le> K. sc_packetQueue (sc_users st ! v) = sc_planned K h"
    and R: "rr_inv ?n K (sc_currentRoundRobinUser st) (sc_pos K st) (sc_currentTime st)"
    by (simp_all add: sc_runInv_def)
  from e0 e1 have "sc_pos K st (sc_currentRoundRobinUser st) = K"
      "sc_pos K st ((sc_currentRoundRobinUser st + 1) mod ?n) = K"
    by (simp_all add: sc_pos_def)
  from rr_two_empty[OF R this] have all: "\<forall>v < ?n. sc_pos K st v = K" .
  show ?thesis
  proof
    fix u assume "u \<in> set (sc_users st)"
    then obtain v where v: "v < ?n" "u = sc_users st ! v" by (auto simp: in_set_conv_nth)
    with shape obtain h where h: "h \<le> K" "sc_packetQueue u = sc_planned K h" by blast
    from all v have "K - length (sc_packetQueue u) = K" by (simp add: sc_pos_def)
    with h have "h = K" by (simp add: sc_planned_length)
    with h show "sc_packetQueue u = []" by (simp add: sc_planned_Nil)
  qed
qed

lemma sc_forSubChannels_inv:
  assumes "sc_runInv K st" "\<forall>j \<in> set js. j < length (sc_subChannels st)"
  shows "\<exists>st'. sc_forSubChannels js st = Inr st' \<and> sc_runInv K st'
           \<and> sc_currentTime st \<le> sc_currentTime st'
           \<and> (sc_allQueuesEmpty st' \<longrightarrow> sc_allQueuesEmpty st)
           \<and> ((\<forall>u \<in> set (sc_users st). sc_packetQueue u = []) \<longrightarrow>
                sc_users st' = sc_users st \<and> sc_allQueuesEmpty st' = sc_allQueuesEmpty st)"
  using assms
proof (induction js arbitrary: st)
  case Nil
  then show ?case by simp
next
  case (Cons j rest)
  from Cons.prems(2) have j: "j < length (sc_subChannels st)" by simp
  from sc_serve_inv[OF Cons.prems(1) j] obtain st1 where
    s1: "sc_serveSubChannel j st = Inr st1" and i1: "sc_runInv K st1"
    and t1: "sc_currentTime st \<le> sc_currentTime st1"
    and f1: "sc_allQueuesEmpty st1 =
        (sc_allQueuesEmpty st \<and> sc_packetQueue (sc_users st ! sc_currentRoundRobinUser st) = [])"
    and e1: "sc_packetQueue (sc_users st ! sc_currentRoundRobinUser st) = [] \<longrightarrow>
        sc_users st1 = sc_users st
        \<and> sc_currentRoundRobinUser st1 = (sc_currentRoundRobinUser st + 1) mod length (sc_users st)"
    by blast
  from sc_serve_queued[OF s1 j] Cons.prems(2)
  have "\<forall>i \<in> set rest. i < length (sc_subChannels st1)" by simp
  from Cons.IH[OF i1 this] obtain st' where
    r: "sc_forSubChannels rest st1 = Inr st'" and i': "sc_runInv K st'"
    and t': "sc_currentTime st1 \<le> sc_currentTime st'"
    and f': "sc_allQueuesEmpty st' \<longrightarrow> sc_allQueuesEmpty st1"
    and e': "(\<forall>u \<in> set (sc_users st1). sc_packetQueue u = []) \<longrightarrow>
        sc_users st' = sc_users st1 \<and> sc_allQueuesEmpty st' = sc_allQueuesEmpty st1"
    by blast
  have rr: "sc_currentRoundRobinUser st < length (sc_users st)"
    using Cons.prems(1) by (simp add: sc_runInv_def rr_inv_def)
  have "(\<forall>u \<in> set (sc_users st). sc_packetQueue u = []) \<longrightarrow>
      sc_users st' = sc_users st \<and> sc_allQueuesEmpty st' = sc_allQueuesEmpty st"
  proof
    assume all: "\<forall>u \<in> set (sc_users st). sc_packetQueue u = []"
    with rr have "sc_packetQueue (sc_users st ! sc_currentRoundRobinUser st) = []" by simp
    with e1 f1 e' all show "sc_users st' = sc_users st \<and> sc_allQueuesEmpty st' = sc_allQueuesEmpty st"
      by simp
  qed
  with s1 r i' t1 t' f1 f' show ?case by auto
qed

lemma sc_forSubChannels_flag:
  assumes inv: "sc_runInv K st" and js: "\<forall>j \<in> set (j0 # j1 # rest). j < length (sc_subChannels st)"
    and run: "sc_forSubChannels (j0 # j1 # rest) st = Inr st'" and flag: "sc_allQueuesEmpty st'"
  shows "\<forall>u \<in> set (sc_users st). sc_packetQueue u = []"
proof -
  from js have j0: "j0 < length (sc_subChannels st)" by simp
  from sc_serve_inv[OF inv j0] obtain st1 where
    s1: "sc_serveSubChannel j0 st = Inr st1" and i1: "sc_runInv K st1"
    and f1: "sc_allQueuesEmpty st1 =
        (sc_allQueuesEmpty st \<and> sc_packetQueue (sc_users st ! sc_currentRoundRobinUser st) = [])"
    and e1: "sc_packetQueue (sc_users st ! sc_currentRoundRobinUser st) = [] \<longrightarrow>
        sc_users st1 = sc_users st
        \<and> sc_currentRoundRobinUser st1 = (sc_currentRoundRobinUser st + 1) mod length (sc_users st)"
    by blast
  from sc_serve_queued[OF s1 j0] js have j1: "j1 < length (sc_subChannels st1)"
    and jr: "\<forall>j \<in> set rest. j < length (sc_subChannels st1)" by simp_all
  from sc_serve_inv[OF i1 j1] obtain st2 where
    s2: "sc_serveSubChannel j1 st1 = Inr st2" and i2: "sc_runInv K st2"
    and f2: "sc_allQueuesEmpty st2 =
        (sc_allQueuesEmpty st1 \<and> sc_packetQueue (sc_users st1 ! sc_currentRoundRobinUser st1) = [])"
    by blast
  from sc_serve_queued[OF s2 j1] jr have jr2: "\<forall>j \<in> set rest. j < length (sc_subChannels st2)" by simp
  from sc_forSubChannels_inv[OF i2 jr2] obtain st3 where
    s3: "sc_forSubChannels rest st2 = Inr st3" and f3: "sc_allQueuesEmpty st3 \<longrightarrow> sc_allQueuesEmpty st2"
    by blast
  from run s1 s2 s3 have "st' = st3" by simp
  with flag f3 f2 f1 have a: "sc_packetQueue (sc_users st ! sc_currentRoundRobinUser st) = []"
    and b: "sc_packetQueue (sc_users st1 ! sc_currentRoundRobinUser st1) = []" by simp_all
  from a b e1 show ?thesis by (intro sc_runInv_all_empty[OF inv]) simp_all
qed

subsection \<open>The invariant along the loop of the sub-channel variant\<close>

lemma sc_pass_inv:
  assumes inv: "sc_runInv K st"
  shows "\<exists>st'. sc_pass st = Inr st' \<and> sc_runInv K st'
           \<and> sc_currentTime st \<le> sc_currentTime st'
           \<and> sc_allQueuesEmpty st' = (\<forall>u \<in> set (sc_users st). sc_packetQueue u = [])
           \<and> (sc_allQueuesEmpty st' \<longrightarrow> sc_users st' = sc_users st)"
proof -
  let ?st0 = "st\<lparr>sc_allQueuesEmpty := True\<rparr>"
  let ?m = "length (sc_subChannels st)"
  from inv have i0: "sc_runInv K ?st0" by (simp add: sc_runInv_flag)
  from inv have m: "2 \<le> ?m" by (simp add: sc_runInv_def)
  have js: "\<forall>j \<in> set [0 ..< ?m]. j < length (sc_subChannels ?st0)" by simp
  from sc_forSubChannels_inv[OF i0 js] obtain st' where
    r: "sc_forSubChannels [0 ..< ?m] ?st0 = Inr st'" and i': "sc_runInv K st'"
    and t: "sc_currentTime ?st0 \<le> sc_currentTime st'"
    and e: "(\<forall>u \<in> set (sc_users ?st0). sc_packetQueue u = []) \<longrightarrow>
              sc_users st' = sc_users ?st0 \<and> sc_allQueuesEmpty st' = sc_allQueuesEmpty ?st0"
    by blast
  from m have a: "0 < ?m" "Suc 0 < ?m" by linarith+
  have split: "[0 ..< ?m] = 0 # Suc 0 # [Suc (Suc 0) ..< ?m]"
    using upt_conv_Cons[OF a(1)] upt_conv_Cons[OF a(2)] by simp
  have f: "sc_allQueuesEmpty st' \<Longrightarrow> \<forall>u \<in> set (sc_users st). sc_packetQueue u = []"
  proof -
    assume fl: "sc_allQueuesEmpty st'"
    from js split have js': "\<forall>j \<in> set (0 # Suc 0 # [Suc (Suc 0) ..< ?m]). j < length (sc_subChannels ?st0)" by simp
    from r split have r': "sc_forSubChannels (0 # Suc 0 # [Suc (Suc 0) ..< ?m]) ?st0 = Inr st'" by simp
    from sc_forSubChannels_flag[OF i0 js' r' fl] show ?thesis by simp
  qed
  from e f have "sc_allQueuesEmpty st' = (\<forall>u \<in> set (sc_users st). sc_packetQueue u = [])"
    by auto
  moreover from e f have "sc_allQueuesEmpty st' \<longrightarrow> sc_users st' = sc_users st" by auto
  ultimately show ?thesis using r i' t by (simp add: sc_pass_def)
qed

lemma sc_whileLoop_inv:
  "sc_runInv K st \<Longrightarrow>
     \<exists>st'. sc_whileLoop st = Inr st' \<and> sc_runInv K st'
       \<and> ((\<forall>u \<in> set (sc_users st'). sc_packetQueue u = [])
           \<or> sc_currentTime st' \<ge> real_of_int sc_MAX_SIMULATION_TIME)"
proof (induction st rule: sc_whileLoop.induct)
  case (1 st)
  from sc_pass_inv[OF "1.prems"] obtain st1 where
    p: "sc_pass st = Inr st1" and i1: "sc_runInv K st1"
    and f: "sc_allQueuesEmpty st1 = (\<forall>u \<in> set (sc_users st). sc_packetQueue u = [])"
    and u: "sc_allQueuesEmpty st1 \<longrightarrow> sc_users st1 = sc_users st"
    by blast
  show ?case
  proof (cases "sc_allQueuesEmpty st1 \<or> sc_currentTime st1 \<ge> real_of_int sc_MAX_SIMULATION_TIME")
    case True
    then have w: "sc_whileLoop st = Inr st1"
      using p by (subst sc_whileLoop.simps) simp
    from True f u have "(\<forall>u \<in> set (sc_users st1). sc_packetQueue u = [])
        \<or> sc_currentTime st1 \<ge> real_of_int sc_MAX_SIMULATION_TIME" by auto
    with w i1 show ?thesis by simp
  next
    case False
    then have w: "sc_whileLoop st = sc_whileLoop st1"
      using p by (subst sc_whileLoop.simps) simp
    from "1.IH"[OF p False i1] w show ?thesis by simp
  qed
qed

lemma sc_prepared_inv:
  assumes "0 < numUsers"
  shows "sc_runInv (min (nat packetsPerUser) 50) (sc_prepared packetsPerUser (sc_mkWiFiSimulation numUsers))"
proof -
  let ?K = "min (nat packetsPerUser) 50"
  let ?st = "sc_prepared packetsPerUser (sc_mkWiFiSimulation numUsers)"
  have users: "sc_users ?st = map (\<lambda>i. (sc_mkUser (int i))\<lparr>sc_packetQueue := sc_planned ?K 0,
        sc_droppedPackets := int (nat packetsPerUser - ?K)\<rparr>) [0 ..< nat numUsers]"
    by (simp add: sc_prepared_def sc_mkWiFiSimulation_def sc_generatePackets_closed sc_mkUser_def
        sc_planned_def)
  have n: "length (sc_users ?st) = nat numUsers" by (simp add: users)
  have q: "sc_packetQueue (sc_users ?st ! v) = sc_planned ?K 0" if "v < nat numUsers" for v
    using that by (simp add: users)
  have pos: "sc_pos ?K ?st v = 0" if "v < nat numUsers" for v
    using q[OF that] by (simp add: sc_pos_def sc_planned_length)
  have rest: "sc_subChannels ?st = map sc_mkSubChannel sc_SUB_CHANNELS"
      "sc_currentRoundRobinUser ?st = 0" "sc_currentTime ?st = 0"
    by (simp_all add: sc_prepared_def sc_mkWiFiSimulation_def)
  have R: "rr_inv (nat numUsers) ?K 0 (sc_pos ?K ?st) 0"
    using assms pos by (simp add: rr_inv_def rr_sorted_def rr_bound_def rr_lead_def)
  have shape: "\<forall>v < nat numUsers. \<exists>h \<le> ?K. sc_packetQueue (sc_users ?st ! v) = sc_planned ?K h"
    using q by blast
  from R shape show ?thesis
    unfolding sc_runInv_def n rest
    by (simp add: sc_SUB_CHANNELS_def sc_mkSubChannel_def sc_transmissionTime_def
        sc_calculateDataRate_def sc_PACKET_SIZE_BYTES_def sc_MODULATION_BITS_def sc_CODING_RATE_def)
qed

lemma sc_loopHead_inv:
  assumes "0 < numUsers" "sc_loopHead numUsers packetsPerUser st"
  shows "sc_runInv (min (nat packetsPerUser) 50) st"
  using assms(2)
proof (induction rule: sc_loopHead.induct)
  case entry
  show ?case by (rule sc_prepared_inv[OF assms(1)])
next
  case (again st st')
  from sc_pass_inv[OF again.IH] again.hyps(2) show ?case by simp
qed

lemma sc_runInv_below_ceiling:
  assumes "sc_runInv K st" "K \<le> 50"
  shows "sc_currentTime st < real_of_int sc_MAX_SIMULATION_TIME"
proof -
  from assms(1) have "sc_currentTime st \<le> 2 + real K * (1 / 100)" by (simp add: sc_runInv_def)
  moreover from assms(2) have "real K \<le> 50" by simp
  ultimately show ?thesis by (simp add: sc_MAX_SIMULATION_TIME_def)
qed

text \<open>
  Without users the first pass of the loop already reads \<open>users[0]\<close> of an empty vector.
\<close>

lemma sc_noUsers_outOfRange:
  assumes "numUsers \<le> 0"
  shows "sc_runSimulation packetsPerUser (sc_mkWiFiSimulation numUsers) = Inl OutOfRange"
proof -
  let ?st = "sc_prepared packetsPerUser (sc_mkWiFiSimulation numUsers)"
  from assms have u: "sc_users ?st = []"
    by (simp add: sc_prepared_def sc_mkWiFiSimulation_def Let_def)
  have c: "sc_subChannels ?st = map sc_mkSubChannel sc_SUB_CHANNELS"
    by (simp add: sc_prepared_def sc_mkWiFiSimulation_def Let_def)
  have "sc_serveSubChannel 0 (?st\<lparr>sc_allQueuesEmpty := True\<rparr>) = Inl OutOfRange"
    by (simp add: sc_serveSubChannel_def Let_def u c sc_SUB_CHANNELS_def sc_mkSubChannel_def)
  then have "sc_pass ?st = Inl OutOfRange"
    by (simp add: sc_pass_def c sc_SUB_CHANNELS_def upt_rec)
  then have "sc_whileLoop ?st = Inl OutOfRange"
    by (subst sc_whileLoop.simps) simp
  then show ?thesis by (simp add: sc_runSimulation_def)
qed

section \<open>The clock and the stamped packets along a run\<close>

text \<open>
  \<open>sc_sound\<close> and \<open>ms_sound\<close> hold when a run starts and after each step of it. In the
  sub-channel variant every sub-channel has a positive bandwidth and every packet sent so
  far has \<open>arrivalTime \<le> transmissionStartTime \<le> transmissionEndTime\<close>. In the
  multi-stream variant every user is in range, every packet for which \<open>sendPacket\<close>
  returned \<open>true\<close> has \<open>transmissionStart \<le> transmissionEnd\<close>, and the counter
  \<open>transmittedPackets\<close> is the number of those packets whose latency is positive.
\<close>

definition sc_stamped :: "sc_Packet \<Rightarrow> bool" where
  "sc_stamped p = (sc_arrivalTime p \<le> sc_transmissionStartTime p
                   \<and> sc_transmissionStartTime p \<le> sc_transmissionEndTime p)"

definition sc_sound :: "sc_WiFiSimulation \<Rightarrow> bool" where
  "sc_sound st = ((\<forall>c \<in> set (sc_subChannels st). 0 < sc_bandwidth c)
                  \<and> (\<forall>p \<in> set (sc_sentLog st). sc_stamped p))"

lemma sc_serve_sound:
  assumes run: "sc_serveSubChannel j st = Inr st'" and j: "j < length (sc_subChannels st)"
    and ok: "sc_sound st"
  shows "sc_currentTime st \<le> sc_currentTime st' \<and> sc_sound st'
       \<and> sc_subChannels st' = sc_subChannels st"
proof -
  let ?rr = "sc_currentRoundRobinUser st"
  let ?u = "sc_users st ! ?rr"
  let ?a = "sc_arrivalTime (hd (sc_packetQueue ?u))"
  let ?t1 = "max (sc_currentTime st) ?a"
  let ?tt = "sc_transmissionTime (sc_subChannels st ! j)"
  from ok j have bw: "0 < sc_bandwidth (sc_subChannels st ! j)" by (simp add: sc_sound_def)
  from sc_transmissionTime_nonneg[OF bw] have tt: "0 < ?tt" .
  consider (busy) "sc_busy (sc_subChannels st ! j)"
    | (oor) "\<not> sc_busy (sc_subChannels st ! j)" "?rr \<ge> length (sc_users st)"
    | (empty) "\<not> sc_busy (sc_subChannels st ! j)" "?rr < length (sc_users st)" "sc_packetQueue ?u = []"
    | (timeout) "\<not> sc_busy (sc_subChannels st ! j)" "?rr < length (sc_users st)" "sc_packetQueue ?u \<noteq> []"
        "?t1 - ?a > sc_TIMEOUT_LIMIT"
    | (transmit) "\<not> sc_busy (sc_subChannels st ! j)" "?rr < length (sc_users st)" "sc_packetQueue ?u \<noteq> []"
        "\<not> ?t1 - ?a > sc_TIMEOUT_LIMIT"
    by linarith
  then show ?thesis
  proof cases
    case busy
    with run ok show ?thesis by (simp add: sc_serve_busy)
  next
    case oor
    with run show ?thesis by (simp add: sc_serve_outOfRange)
  next
    case empty
    with run ok show ?thesis by (auto simp: sc_serve_empty sc_sound_def)
  next
    case timeout
    from run ok show ?thesis
      by (auto simp: sc_serve_timeout[OF timeout] sc_sound_def)
  next
    case transmit
    have "sc_stamped ((hd (sc_packetQueue ?u))
            \<lparr>sc_transmissionStartTime := ?t1, sc_transmissionEndTime := ?t1 + ?tt\<rparr>)"
      using tt by (simp add: sc_stamped_def)
    moreover have "sc_currentTime st \<le> ?t1 + ?tt" using tt by (simp add: max_def)
    ultimately show ?thesis
      using run ok
      by (auto simp: sc_serve_transmit[OF transmit(1) j transmit(2-4)] sc_sound_def)
  qed
qed

lemma sc_forSubChannels_sound:
  assumes "sc_forSubChannels js st = Inr st'" "\<forall>j \<in> set js. j < length (sc_subChannels st)"
    "sc_sound st"
  shows "sc_currentTime st \<le> sc_currentTime st' \<and> sc_sound st'
       \<and> sc_subChannels st' = sc_subChannels st"
  using assms
proof (induction js arbitrary: st)
  case Nil
  then show ?case by simp
next
  case (Cons j rest)
  from Cons.prems(1) obtain st1 where s1: "sc_serveSubChannel j st = Inr st1"
    and r: "sc_forSubChannels rest st1 = Inr st'"
    by (auto split: sum.splits)
  from Cons.prems(2) have j: "j < length (sc_subChannels st)" by simp
  note a = sc_serve_sound[OF s1 j Cons.prems(3)]
  from a Cons.prems(2) have "\<forall>i \<in> set rest. i < length (sc_subChannels st1)" by simp
  from Cons.IH[OF r this] a show ?case by auto
qed

lemma sc_pass_sound:
  assumes "sc_pass st = Inr st'" "sc_sound st"
  shows "sc_currentTime st \<le> sc_currentTime st' \<and> sc_sound st'"
proof -
  let ?st0 = "st\<lparr>sc_allQueuesEmpty := True\<rparr>"
  have a: "\<forall>j \<in> set [0 ..< length (sc_subChannels st)]. j < length (sc_subChannels ?st0)" by simp
  from assms(2) have b: "sc_sound ?st0" by (simp add: sc_sound_def)
  from sc_forSubChannels_sound[OF assms(1)[unfolded sc_pass_def] a b] show ?thesis by simp
qed

lemma sc_whileLoop_sound:
  "sc_whileLoop st = Inr st' \<Longrightarrow> sc_sound st \<Longrightarrow>
     sc_currentTime st \<le> sc_currentTime st' \<and> sc_sound st'"
proof (induction st rule: sc_whileLoop.induct)
  case (1 st)
  show ?case
  proof (cases "sc_pass st")
    case (Inl e)
    with "1.prems"(1) show ?thesis by (subst (asm) sc_whileLoop.simps) simp
  next
    case (Inr st1)
    note p = sc_pass_sound[OF Inr "1.prems"(2)]
    show ?thesis
    proof (cases "sc_allQueuesEmpty st1 \<or> sc_currentTime st1 \<ge> real_of_int sc_MAX_SIMULATION_TIME")
      case True
      with Inr "1.prems"(1) have "st' = st1" by (subst (asm) sc_whileLoop.simps) simp
      with p show ?thesis by simp
    next
      case False
      with Inr "1.prems"(1) have "sc_whileLoop st1 = Inr st'" by (subst (asm) sc_whileLoop.simps) simp
      from "1.IH"[OF Inr False this] p show ?thesis by auto
    qed
  qed
qed

lemma sc_prepared_sound: "sc_sound (sc_prepared packetsPerUser (sc_mkWiFiSimulation numUsers))"
  by (simp add: sc_sound_def sc_prepared_def sc_mkWiFiSimulation_def sc_SUB_CHANNELS_def
      sc_mkSubChannel_def)

definition ms_sound :: "ms_WiFiSimulation \<Rightarrow> bool" where
  "ms_sound st =
     (ms_inRange st
      \<and> (\<forall>p \<in> set (ms_sentLog st). ms_transmissionStart p \<le> ms_transmissionEnd p)
      \<and> ms_transmittedPackets st
          = int (length (filter (\<lambda>p. 0 < ms_transmissionEnd p - ms_arrivalTimestamp p) (ms_sentLog st))))"

lemma ms_serveUser_sound:
  assumes run: "ms_serveUser rd i st = Inr st'" and ok: "ms_sound st" and i: "i < length (ms_users st)"
  shows "ms_sound st'"
proof -
  let ?u = "ms_users st ! i"
  let ?end = "ms_currentTime st + ms_timeToTransmit ?u"
  from ok have r: "ms_inRange st" by (simp add: ms_sound_def)
  from ms_serveUser_returned[OF run r i] have r': "ms_inRange st'" by simp
  from r i have d: "0 \<le> ms_distanceFromAP ?u" "ms_distanceFromAP ?u \<le> ms_MAX_DISTANCE"
    by (simp_all add: ms_inRange_def)
  from ms_timeToTransmit_pos[OF d] have tt: "0 < ms_timeToTransmit ?u" .
  show ?thesis
  proof (cases "ms_hasPackets ?u")
    case False
    with run ok show ?thesis by (simp add: ms_serveUser_idle)
  next
    case True
    then have ne: "ms_packetQueue ?u \<noteq> []" by (simp add: ms_hasPackets_def)
    have free: "ms_findAvailableStream (ms_channel st) \<noteq> - 1"
    proof
      assume "ms_findAvailableStream (ms_channel st) = - 1"
      from ms_serveUser_busy[OF this True, of rd] run show False by auto
    qed
    consider (drop) "?end > real_of_int ms_MAX_SIMULATION_TIME"
      | (counted) "\<not> ?end > real_of_int ms_MAX_SIMULATION_TIME"
          "?end - ms_arrivalTimestamp (hd (ms_packetQueue ?u)) > 0"
      | (uncounted) "\<not> ?end > real_of_int ms_MAX_SIMULATION_TIME"
          "\<not> ?end - ms_arrivalTimestamp (hd (ms_packetQueue ?u)) > 0"
      by linarith
    then show ?thesis
    proof cases
      case drop
      from run ok r' show ?thesis
        by (auto simp: ms_serveUser_drop[OF free ne drop] ms_sound_def)
    next
      case counted
      from run ok r' tt counted(2) show ?thesis
        by (auto simp: ms_serveUser_counted[OF free ne counted] ms_sound_def)
    next
      case uncounted
      from run ok r' tt uncounted(2) show ?thesis
        by (auto simp: ms_serveUser_uncounted[OF free ne uncounted] ms_sound_def)
    qed
  qed
qed

lemma ms_forUsers_sound:
  assumes "ms_forUsers rd is st = Inr st'" "ms_sound st" "\<forall>i \<in> set is. i < length (ms_users st)"
  shows "ms_sound st'"
  using assms
proof (induction "is" arbitrary: st)
  case Nil
  then show ?case by simp
next
  case (Cons i rest)
  from Cons.prems(1) obtain st1 where s1: "ms_serveUser rd i st = Inr st1"
    and r: "ms_forUsers rd rest st1 = Inr st'"
    by (auto split: sum.splits)
  from Cons.prems(3) have i: "i < length (ms_users st)" by simp
  from ms_serveUser_queued[OF s1 i] Cons.prems(3)
  have "\<forall>j \<in> set rest. j < length (ms_users st1)" by simp
  from Cons.IH[OF r ms_serveUser_sound[OF s1 Cons.prems(2) i] this] show ?case .
qed

lemma ms_whileLoop_sound:
  "ms_whileLoop rd st = Inr st' \<Longrightarrow> ms_sound st \<Longrightarrow> ms_sound st'"
proof (induction rd st rule: ms_whileLoop.induct)
  case (1 rd st)
  let ?st0 = "st\<lparr>ms_allQueuesEmpty := True\<rparr>"
  let ?is = "[0 ..< length (ms_users st)]"
  from "1.prems"(2) have ok0: "ms_sound ?st0" by (simp add: ms_sound_def ms_inRange_def)
  have idx: "\<forall>i \<in> set ?is. i < length (ms_users ?st0)" by simp
  show ?case
  proof (cases "ms_forUsers rd ?is ?st0")
    case (Inl e)
    with "1.prems"(1) show ?thesis by (subst (asm) ms_whileLoop.simps) simp
  next
    case (Inr st1)
    note ok1 = ms_forUsers_sound[OF Inr ok0 idx]
    show ?thesis
    proof (cases "ms_allQueuesEmpty st1 \<or> ms_currentTime st1 > real_of_int ms_MAX_SIMULATION_TIME")
      case True
      with Inr "1.prems"(1) have "st' = st1" by (subst (asm) ms_whileLoop.simps) simp
      with ok1 show ?thesis by simp
    next
      case False
      with Inr "1.prems"(1) have "ms_whileLoop rd st1 = Inr st'" by (subst (asm) ms_whileLoop.simps) simp
      from "1.IH"[OF Inr False this ok1] show ?thesis .
    qed
  qed
qed

lemma ms_prepared_sound:
  "ms_sound (ms_prepared packetsPerUser (ms_mkWiFiSimulation rands userCount))"
proof -
  have "ms_inRange (ms_prepared packetsPerUser (ms_mkWiFiSimulation rands userCount))"
    by (rule ms_prepared_inRange[OF ms_mkWiFiSimulation_inRange])
  then show ?thesis
    by (simp add: ms_sound_def ms_prepared_def ms_mkWiFiSimulation_def)
qed

lemma ms_runSimulation_sound:
  "ms_sound (ms_runSimulation rd userCount packetsPerUser (ms_mkWiFiSimulation rands userCount))"
proof -
  let ?st = "ms_prepared packetsPerUser (ms_mkWiFiSimulation rands userCount)"
  have "ms_findAvailableStream (ms_channel ?st) \<noteq> - 1"
    by (simp add: ms_prepared_fields ms_mkWiFiSimulation_free)
  from ms_whileLoop_free[OF this, of rd rd] obtain st' where w: "ms_whileLoop rd ?st = Inr st'"
    by blast
  from ms_whileLoop_sound[OF w ms_prepared_sound] have "ms_sound st'" .
  then have "ms_sound (st'\<lparr>ms_simulationTime := ms_currentTime st'\<rparr>)"
    by (simp add: ms_sound_def ms_inRange_def)
  with w show ?thesis by (simp add: ms_runSimulation_def)
qed

subsection \<open>Two small runs, evaluated\<close>

text \<open>
  The sub-channel variant with one user and two packets, and the multi-stream variant
  with twenty users at 1000 metres and two packets each.
\<close>

lemma sc_transmissionTime_eval:
  "sc_transmissionTime \<lparr>sc_bandwidth = bw, sc_busy = b\<rparr> = 8192 / (bw * 1000000 * 8 * (5 / 6))"
  by (simp add: sc_transmissionTime_def sc_calculateDataRate_def sc_PACKET_SIZE_BYTES_def
      sc_MODULATION_BITS_def sc_CODING_RATE_def)

lemmas sc_exec = sc_serve_empty sc_serve_timeout sc_serve_transmit sc_transmissionTime_eval
  sc_TIMEOUT_LIMIT_def sc_MAX_SIMULATION_TIME_def sc_mkPacket_def list_update_Cons_numeral

definition sc_oneUserStart :: sc_WiFiSimulation where
  "sc_oneUserStart =
     \<lparr>sc_users = [\<lparr>sc_userId = 0, sc_packetQueue = [sc_mkPacket 0 0, sc_mkPacket 1 (1 / 100)],
                    sc_droppedPackets = 0\<rparr>],
      sc_subChannels = [\<lparr>sc_bandwidth = 2, sc_busy = False\<rparr>, \<lparr>sc_bandwidth = 4, sc_busy = False\<rparr>,
                        \<lparr>sc_bandwidth = 10, sc_busy = False\<rparr>],
      sc_totalTime = 0, sc_totalPackets = 0, sc_totalLatency = 0, sc_maxLatency = 0,
      sc_totalDroppedPackets = 0, sc_currentRoundRobinUser = 0,
      sc_currentTime = 0, sc_allQueuesEmpty = True, sc_sentLog = []\<rparr>"

lemma sc_oneUser_prepared: "sc_prepared 2 (sc_mkWiFiSimulation 1) = sc_oneUserStart"
  by (simp add: sc_prepared_def sc_mkWiFiSimulation_def sc_generatePackets_closed sc_mkUser_def
      sc_fresh_def sc_SUB_CHANNELS_def sc_mkSubChannel_def sc_oneUserStart_def upt_rec)

lemma sc_upt3: "[0 ..< 3] = [0, 1, 2]"
  by (simp add: upt_rec)

definition sc_oneUserEnd :: sc_WiFiSimulation where
  "sc_oneUserEnd =
     \<lparr>sc_users = [\<lparr>sc_userId = 0, sc_packetQueue = [], sc_droppedPackets = 0\<rparr>],
      sc_subChannels = [\<lparr>sc_bandwidth = 2, sc_busy = False\<rparr>, \<lparr>sc_bandwidth = 4, sc_busy = False\<rparr>,
                        \<lparr>sc_bandwidth = 10, sc_busy = False\<rparr>],
      sc_totalTime = 0, sc_totalPackets = 2,
      sc_totalLatency = 72 / 78125, sc_maxLatency = 48 / 78125,
      sc_totalDroppedPackets = 0, sc_currentRoundRobinUser = 0,
      sc_currentTime = 3221 / 312500, sc_allQueuesEmpty = True,
      sc_sentLog =
        [\<lparr>sc_id = 0, sc_arrivalTime = 0, sc_transmissionStartTime = 0,
            sc_transmissionEndTime = 48 / 78125\<rparr>,
         \<lparr>sc_id = 1, sc_arrivalTime = 1 / 100, sc_transmissionStartTime = 1 / 100,
            sc_transmissionEndTime = 3221 / 312500\<rparr>]\<rparr>"

lemma sc_oneUser_loop: "sc_whileLoop sc_oneUserStart = Inr sc_oneUserEnd"
  unfolding sc_oneUserStart_def sc_oneUserEnd_def
  apply (subst sc_whileLoop.simps)
  apply (simp add: sc_pass_def sc_upt3 sc_exec)
  apply (subst sc_whileLoop.simps)
  apply (simp add: sc_pass_def sc_upt3 sc_exec)
  done

lemma sc_oneUser_run:
  "sc_runSimulation 2 (sc_mkWiFiSimulation 1) = Inr (sc_oneUserEnd\<lparr>sc_totalTime := 3221 / 312500\<rparr>)"
  by (simp add: sc_runSimulation_def sc_oneUser_prepared sc_oneUser_loop) (simp add: sc_oneUserEnd_def)


lemma ms_twenty_run:
  "(case ms_whileLoop rd (ms_prepared 2 (ms_mkWiFiSimulation (\<lambda>i. 1000) 20)) of
      Inl e \<Rightarrow> False
    | Inr s \<Rightarrow>
        ms_sentLog s ! 20 = \<lparr>ms_packetID = 1, ms_arrivalTimestamp = 1 / 100,
                              ms_transmissionStart = 768 / 78125, ms_transmissionEnd = 4032 / 390625\<rparr>
        \<and> ms_transmittedPackets s = 40 \<and> length (ms_sentLog s) = 40)"
  apply (simp add: ms_prepared_def ms_mkWiFiSimulation_def ms_mkUser_def ms_channel_initial
      ms_generatePackets_2 upt_rec)
  apply (subst ms_whileLoop.simps)
  apply (simp add: ms_exec)
  apply (subst ms_whileLoop.simps)
  apply (simp add: ms_exec)
  apply (subst ms_whileLoop.simps)
  apply (simp add: ms_exec)
  done

section \<open>Contention variant (src/wifi4.cpp)\<close>

subsection \<open>Constants\<close>

definition ct_BANDWIDTH :: real where "ct_BANDWIDTH = 20000000"
definition ct_MODULATION :: int where "ct_MODULATION = 8"
definition ct_CODING_RATE :: real where "ct_CODING_RATE = 5 / 6"
definition ct_DATA_RATE :: real where
  "ct_DATA_RATE = ct_BANDWIDTH * real_of_int ct_MODULATION * ct_CODING_RATE"
definition ct_PACKET_SIZE :: int where "ct_PACKET_SIZE = 8192"
definition ct_TRANSMISSION_TIME :: real where
  "ct_TRANSMISSION_TIME = real_of_int ct_PACKET_SIZE / ct_DATA_RATE"
definition ct_MAX_BACKOFF :: real where "ct_MAX_BACKOFF = 1 / 100000"

text \<open>
  \<open>RAND_MAX\<close> comes from the C library, not from the program; the value is the one of
  glibc. The two random sources are inputs of the model: \<open>rnd\<close> is the sequence of raw
  values behind \<open>rand()\<close>, \<open>gen\<close> the sequence behind \<open>distribution(generator)\<close>. Each raw
  value is mapped into the range of its source: \<open>rand()\<close> lies in \<open>0 .. RAND_MAX\<close>, a
  draw from \<open>uniform_real_distribution(0, MAX_BACKOFF)\<close> in \<open>[0, MAX_BACKOFF)\<close>.
\<close>

definition ct_RAND_MAX :: nat where "ct_RAND_MAX = 2147483647"

definition ct_rand :: "nat \<Rightarrow> nat" where
  "ct_rand raw = raw mod (ct_RAND_MAX + 1)"

definition ct_distribution :: "nat \<Rightarrow> real" where
  "ct_distribution raw = ct_MAX_BACKOFF * (real (raw mod 4294967296) / 4294967296)"

text \<open>
  The test \<open>(rand() / (double)RAND_MAX) < (1.0 / users)\<close>. With \<open>users == 0\<close> the right
  side is \<open>+\<infinity>\<close> in C++, and the test holds; HOL's \<open>1 / 0\<close> is 0, so that case is
  written out.
\<close>

definition ct_channelFree :: "int \<Rightarrow> nat \<Rightarrow> bool" where
  "ct_channelFree users r =
     (if users = 0 then True else real r / real ct_RAND_MAX < 1 / real_of_int users)"

subsection \<open>simulateWiFi\<close>

text \<open>
  The locals \<open>latencies\<close> and \<open>total_time\<close>, with the number of calls of \<open>rand()\<close> made so
  far in the process and the number of draws made from \<open>generator\<close> in this call.
\<close>

record ct_Simulation =
  ct_latencies :: "real list"
  ct_total_time :: real
  ct_randCalls :: nat
  ct_draws :: nat

text \<open>
  One iteration of \<open>while (true)\<close>: the result says whether the loop is left
  (\<open>break\<close>), and gives the local \<open>latency\<close> and the state.
\<close>

definition ct_attempt ::
  "(nat \<Rightarrow> nat) \<Rightarrow> (nat \<Rightarrow> nat) \<Rightarrow> int \<Rightarrow> real \<Rightarrow> ct_Simulation \<Rightarrow> bool \<times> real \<times> ct_Simulation" where
  "ct_attempt rnd gen users latency s =
     (if ct_channelFree users (ct_rand (rnd (ct_randCalls s)))
      then
        let latency' = latency + ct_TRANSMISSION_TIME
        in (True, latency',
            s\<lparr>ct_total_time := ct_total_time s + ct_TRANSMISSION_TIME,
              ct_latencies := ct_latencies s @ [latency'],
              ct_randCalls := Suc (ct_randCalls s)\<rparr>)
      else
        let backoff = ct_distribution (gen (ct_draws s))
        in (False, latency + backoff,
            s\<lparr>ct_total_time := ct_total_time s + backoff,
              ct_randCalls := Suc (ct_randCalls s),
              ct_draws := Suc (ct_draws s)\<rparr>))"

text \<open>
  The loop \<open>while (true)\<close> for one packet. Nothing bounds the number of iterations (with
  a negative \<open>users\<close> the test never holds), so the loop is a partial function: \<open>None\<close>
  stands for a loop that never ends.
\<close>

partial_function (option) ct_whileTrue ::
  "(nat \<Rightarrow> nat) \<Rightarrow> (nat \<Rightarrow> nat) \<Rightarrow> int \<Rightarrow> real \<Rightarrow> ct_Simulation \<Rightarrow> ct_Simulation option" where
  "ct_whileTrue rnd gen users latency s =
     (case ct_attempt rnd gen users latency s of
        (done, latency', s') \<Rightarrow>
          if done then Some s' else ct_whileTrue rnd gen users latency' s')"

text \<open>The loop \<open>for (int i = 0; i < packets; ++i)\<close>, by the number of packets still to send.\<close>

fun ct_forPackets ::
  "(nat \<Rightarrow> nat) \<Rightarrow> (nat \<Rightarrow> nat) \<Rightarrow> int \<Rightarrow> nat \<Rightarrow> ct_Simulation \<Rightarrow> ct_Simulation option" where
  "ct_forPackets rnd gen users 0 s = Some s"
| "ct_forPackets rnd gen users (Suc n) s =
     (case ct_whileTrue rnd gen users 0 s of
        None \<Rightarrow> None
      | Some s' \<Rightarrow> ct_forPackets rnd gen users n s')"

record ct_Report =
  ct_shownThroughputMbps :: real
  ct_shownAverageLatencyMs :: real
  ct_shownMaximumLatencyMs :: real
  ct_randCallsAfter :: nat

definition ct_throughput :: "int \<Rightarrow> ct_Simulation \<Rightarrow> real" where
  "ct_throughput packets s = real_of_int (packets * ct_PACKET_SIZE) / ct_total_time s"

text \<open>
  \<open>simulateWiFi\<close>: \<open>randCalls\<close> is the number of calls of \<open>rand()\<close> made before this one;
  \<open>generator\<close> is a local, default-seeded engine, so its sequence starts anew.
\<close>

definition ct_simulateWiFi ::
  "(nat \<Rightarrow> nat) \<Rightarrow> (nat \<Rightarrow> nat) \<Rightarrow> nat \<Rightarrow> int \<Rightarrow> int \<Rightarrow> ct_Report option" where
  "ct_simulateWiFi rnd gen randCalls users packets =
     (case ct_forPackets rnd gen users (nat packets)
             \<lparr>ct_latencies = [], ct_total_time = 0, ct_randCalls = randCalls, ct_draws = 0\<rparr> of
        None \<Rightarrow> None
      | Some s \<Rightarrow>
          let throughput = ct_throughput packets s;
              avg_latency = sum_list (ct_latencies s) / real (length (ct_latencies s));
              max_latency = fold (\<lambda>l m. if l > m then l else m) (ct_latencies s) 0
          in Some \<lparr>ct_shownThroughputMbps = throughput / 1000000,
                    ct_shownAverageLatencyMs = avg_latency * 1000,
                    ct_shownMaximumLatencyMs = max_latency * 1000,
                    ct_randCallsAfter = ct_randCalls s\<rparr>)"

subsection \<open>The clock of the contention variant, and of sendPacket\<close>

lemma ct_TRANSMISSION_TIME_pos: "0 < ct_TRANSMISSION_TIME"
  by (simp add: ct_TRANSMISSION_TIME_def ct_DATA_RATE_def ct_PACKET_SIZE_def ct_BANDWIDTH_def
      ct_MODULATION_def ct_CODING_RATE_def)

lemma ct_distribution_range: "0 \<le> ct_distribution raw \<and> ct_distribution raw < ct_MAX_BACKOFF"
proof -
  have "raw mod 4294967296 < 4294967296" by simp
  then have "real (raw mod 4294967296) < 4294967296" by linarith
  then have "real (raw mod 4294967296) / 4294967296 < 1" by simp
  moreover have "0 \<le> real (raw mod 4294967296) / 4294967296" by simp
  ultimately show ?thesis
    by (simp add: ct_distribution_def ct_MAX_BACKOFF_def)
qed

lemma ct_attempt_clock:
  "ct_total_time s \<le> ct_total_time (snd (snd (ct_attempt rnd gen users latency s)))"
  using ct_TRANSMISSION_TIME_pos ct_distribution_range[of "gen (ct_draws s)"]
  by (simp add: ct_attempt_def Let_def)

lemma ct_whileTrue_clock:
  assumes "ct_whileTrue rnd gen users latency s = Some s'"
  shows "ct_total_time s \<le> ct_total_time s'"
proof (rule ct_whileTrue.raw_induct
    [where P = "\<lambda>rnd gen users latency s s'. ct_total_time s \<le> ct_total_time s'", OF _ assms])
  fix f rnd gen users latency s y
  assume IH: "\<And>rnd gen users latency s y.
      f rnd gen users latency s = Some y \<Longrightarrow> ct_total_time s \<le> ct_total_time y"
    and body: "(case ct_attempt rnd gen users latency s of
        (done, latency', s') \<Rightarrow> if done then Some s' else f rnd gen users latency' s') = Some y"
  obtain d l s1 where a: "ct_attempt rnd gen users latency s = (d, l, s1)"
    by (cases "ct_attempt rnd gen users latency s")
  from ct_attempt_clock[of s rnd gen users latency] a
  have t: "ct_total_time s \<le> ct_total_time s1" by simp
  show "ct_total_time s \<le> ct_total_time y"
  proof (cases d)
    case True
    with a body t show ?thesis by simp
  next
    case False
    with a body have "f rnd gen users l s1 = Some y" by simp
    from IH[OF this] t show ?thesis by simp
  qed
qed

lemma ct_forPackets_clock:
  "ct_forPackets rnd gen users n s = Some s' \<Longrightarrow> ct_total_time s \<le> ct_total_time s'"
proof (induction n arbitrary: s)
  case 0
  then show ?case by simp
next
  case (Suc n)
  from Suc.prems obtain s1 where a: "ct_whileTrue rnd gen users 0 s = Some s1"
    and b: "ct_forPackets rnd gen users n s1 = Some s'"
    by (auto split: option.splits)
  from ct_whileTrue_clock[OF a] Suc.IH[OF b] show ?case by simp
qed

lemma ms_sendPacket_clock:
  "0 < rate \<Longrightarrow> t \<le> snd (snd (snd (ms_sendPacket ch pkt t rate idx)))"
  by (simp add: ms_sendPacket_def Let_def ms_PACKET_SIZE_BYTES_def)

subsection \<open>The contention variant reads rand() only from where the call starts\<close>

text \<open>
  \<open>simulateWiFi\<close> depends on the sequence behind \<open>rand()\<close> only through the values that
  follow the position at which the call starts: a call that starts at another position
  and finds the same values there takes the same steps.
\<close>

lemma ct_attempt_shift:
  assumes "rnd (ct_randCalls s) = rnd' c'"
  shows "ct_attempt rnd' gen users latency (s\<lparr>ct_randCalls := c'\<rparr>)
     = (case ct_attempt rnd gen users latency s of
          (d, l, s1) \<Rightarrow> (d, l, s1\<lparr>ct_randCalls := Suc c'\<rparr>))"
  using assms by (simp add: ct_attempt_def Let_def)

lemma ct_attempt_randCalls:
  "ct_randCalls (snd (snd (ct_attempt rnd gen users latency s))) = Suc (ct_randCalls s)"
  by (simp add: ct_attempt_def Let_def)

lemma ct_whileTrue_shift_all:
  assumes run: "ct_whileTrue rnd gen users latency s = Some t"
  shows "\<forall>rnd' c'. (\<forall>k. rnd (ct_randCalls s + k) = rnd' (c' + k)) \<longrightarrow>
           ct_whileTrue rnd' gen users latency (s\<lparr>ct_randCalls := c'\<rparr>)
             = Some (t\<lparr>ct_randCalls := c' + (ct_randCalls t - ct_randCalls s)\<rparr>)
           \<and> ct_randCalls s \<le> ct_randCalls t"
proof (rule ct_whileTrue.raw_induct
    [where P = "\<lambda>rnd gen users latency s t.
        \<forall>rnd' c'. (\<forall>k. rnd (ct_randCalls s + k) = rnd' (c' + k)) \<longrightarrow>
           ct_whileTrue rnd' gen users latency (s\<lparr>ct_randCalls := c'\<rparr>)
             = Some (t\<lparr>ct_randCalls := c' + (ct_randCalls t - ct_randCalls s)\<rparr>)
           \<and> ct_randCalls s \<le> ct_randCalls t", OF _ run])
  fix f rnd gen users latency s y
  assume IH: "\<And>rnd gen users latency s y.
      f rnd gen users latency s = Some y \<Longrightarrow>
        \<forall>rnd' c'. (\<forall>k. rnd (ct_randCalls s + k) = rnd' (c' + k)) \<longrightarrow>
           ct_whileTrue rnd' gen users latency (s\<lparr>ct_randCalls := c'\<rparr>)
             = Some (y\<lparr>ct_randCalls := c' + (ct_randCalls y - ct_randCalls s)\<rparr>)
           \<and> ct_randCalls s \<le> ct_randCalls y"
    and body: "(case ct_attempt rnd gen users latency s of
        (done, latency', s') \<Rightarrow> if done then Some s' else f rnd gen users latency' s') = Some y"
  obtain d l s1 where a: "ct_attempt rnd gen users latency s = (d, l, s1)"
    by (cases "ct_attempt rnd gen users latency s")
  from ct_attempt_randCalls[of rnd gen users latency s] a
  have n1: "ct_randCalls s1 = Suc (ct_randCalls s)" by simp
  show "\<forall>rnd' c'. (\<forall>k. rnd (ct_randCalls s + k) = rnd' (c' + k)) \<longrightarrow>
           ct_whileTrue rnd' gen users latency (s\<lparr>ct_randCalls := c'\<rparr>)
             = Some (y\<lparr>ct_randCalls := c' + (ct_randCalls y - ct_randCalls s)\<rparr>)
           \<and> ct_randCalls s \<le> ct_randCalls y"
  proof (intro allI impI)
    fix rnd' c'
    assume same: "\<forall>k. rnd (ct_randCalls s + k) = rnd' (c' + k)"
    from same[rule_format, of 0] have h: "rnd (ct_randCalls s) = rnd' c'" by simp
    from ct_attempt_shift[where rnd = rnd and rnd' = rnd' and s = s and c' = c'
        and gen = gen and users = users and latency = latency] h a
    have a': "ct_attempt rnd' gen users latency (s\<lparr>ct_randCalls := c'\<rparr>)
        = (d, l, s1\<lparr>ct_randCalls := Suc c'\<rparr>)" by simp
    show "ct_whileTrue rnd' gen users latency (s\<lparr>ct_randCalls := c'\<rparr>)
             = Some (y\<lparr>ct_randCalls := c' + (ct_randCalls y - ct_randCalls s)\<rparr>)
           \<and> ct_randCalls s \<le> ct_randCalls y"
    proof (cases d)
      case True
      with a body have y: "y = s1" by simp
      have "ct_whileTrue rnd' gen users latency (s\<lparr>ct_randCalls := c'\<rparr>)
          = Some (s1\<lparr>ct_randCalls := Suc c'\<rparr>)"
        by (subst ct_whileTrue.simps) (simp add: a' True)
      with y n1 show ?thesis by simp
    next
      case False
      with a body have r: "f rnd gen users l s1 = Some y" by simp
      have same1: "\<forall>k. rnd (ct_randCalls s1 + k) = rnd' (Suc c' + k)"
      proof
        fix k
        from same[rule_format, of "Suc k"] n1 show "rnd (ct_randCalls s1 + k) = rnd' (Suc c' + k)"
          by simp
      qed
      from IH[OF r] same1
      have i: "ct_whileTrue rnd' gen users l (s1\<lparr>ct_randCalls := Suc c'\<rparr>)
             = Some (y\<lparr>ct_randCalls := Suc c' + (ct_randCalls y - ct_randCalls s1)\<rparr>)"
        and le: "ct_randCalls s1 \<le> ct_randCalls y" by blast+
      have "ct_whileTrue rnd' gen users latency (s\<lparr>ct_randCalls := c'\<rparr>)
          = ct_whileTrue rnd' gen users l (s1\<lparr>ct_randCalls := Suc c'\<rparr>)"
        by (subst ct_whileTrue.simps) (simp add: a' False)
      moreover from le n1 have "Suc c' + (ct_randCalls y - ct_randCalls s1)
          = c' + (ct_randCalls y - ct_randCalls s)" by simp
      ultimately show ?thesis using i le n1 by simp
    qed
  qed
qed

lemma ct_whileTrue_shift:
  assumes "ct_whileTrue rnd gen users latency s = Some t"
    and "\<forall>k. rnd (ct_randCalls s + k) = rnd' (c' + k)"
  shows "ct_whileTrue rnd' gen users latency (s\<lparr>ct_randCalls := c'\<rparr>)
             = Some (t\<lparr>ct_randCalls := c' + (ct_randCalls t - ct_randCalls s)\<rparr>)
           \<and> ct_randCalls s \<le> ct_randCalls t"
  using ct_whileTrue_shift_all[OF assms(1)] assms(2) by blast

lemma ct_forPackets_shift:
  assumes "ct_forPackets rnd gen users n s = Some t"
    and "\<forall>k. rnd (ct_randCalls s + k) = rnd' (c' + k)"
  shows "ct_forPackets rnd' gen users n (s\<lparr>ct_randCalls := c'\<rparr>)
             = Some (t\<lparr>ct_randCalls := c' + (ct_randCalls t - ct_randCalls s)\<rparr>)
           \<and> ct_randCalls s \<le> ct_randCalls t"
  using assms
proof (induction n arbitrary: s c')
  case 0
  then show ?case by simp
next
  case (Suc n)
  from Suc.prems(1) obtain s1 where a: "ct_whileTrue rnd gen users 0 s = Some s1"
    and b: "ct_forPackets rnd gen users n s1 = Some t"
    by (auto split: option.splits)
  from ct_whileTrue_shift[OF a Suc.prems(2)]
  have a': "ct_whileTrue rnd' gen users 0 (s\<lparr>ct_randCalls := c'\<rparr>)
             = Some (s1\<lparr>ct_randCalls := c' + (ct_randCalls s1 - ct_randCalls s)\<rparr>)"
    and le: "ct_randCalls s \<le> ct_randCalls s1" by simp_all
  have same1: "\<forall>k. rnd (ct_randCalls s1 + k) = rnd' (c' + (ct_randCalls s1 - ct_randCalls s) + k)"
  proof
    fix k
    from Suc.prems(2)[rule_format, of "ct_randCalls s1 - ct_randCalls s + k"] le
    show "rnd (ct_randCalls s1 + k) = rnd' (c' + (ct_randCalls s1 - ct_randCalls s) + k)"
      by (simp add: add.assoc)
  qed
  from Suc.IH[OF b same1]
  have i: "ct_forPackets rnd' gen users n (s1\<lparr>ct_randCalls := c' + (ct_randCalls s1 - ct_randCalls s)\<rparr>)
      = Some (t\<lparr>ct_randCalls := c' + (ct_randCalls s1 - ct_randCalls s) + (ct_randCalls t - ct_randCalls s1)\<rparr>)"
    and le1: "ct_randCalls s1 \<le> ct_randCalls t" by simp_all
  from le le1 have "c' + (ct_randCalls s1 - ct_randCalls s) + (ct_randCalls t - ct_randCalls s1)
      = c' + (ct_randCalls t - ct_randCalls s)" by simp
  with a' i le le1 show ?case by simp
qed

lemma ct_simulateWiFi_shift:
  assumes "ct_simulateWiFi rnd gen calls users packets = Some r"
    and "\<forall>k. rnd (calls + k) = rnd' (calls' + k)"
  shows "\<exists>r'. ct_simulateWiFi rnd' gen calls' users packets = Some r'
           \<and> ct_shownThroughputMbps r' = ct_shownThroughputMbps r
           \<and> ct_shownAverageLatencyMs r' = ct_shownAverageLatencyMs r
           \<and> ct_shownMaximumLatencyMs r' = ct_shownMaximumLatencyMs r
           \<and> ct_randCallsAfter r' - calls' = ct_randCallsAfter r - calls"
proof -
  let ?s = "\<lparr>ct_latencies = [], ct_total_time = 0, ct_randCalls = calls, ct_draws = 0\<rparr>"
  from assms(1) obtain t where t: "ct_forPackets rnd gen users (nat packets) ?s = Some t"
    by (auto simp: ct_simulateWiFi_def split: option.splits)
  from assms(2) have "\<forall>k. rnd (ct_randCalls ?s + k) = rnd' (calls' + k)" by simp
  from ct_forPackets_shift[OF t this]
  have t': "ct_forPackets rnd' gen users (nat packets)
        \<lparr>ct_latencies = [], ct_total_time = 0, ct_randCalls = calls', ct_draws = 0\<rparr>
      = Some (t\<lparr>ct_randCalls := calls' + (ct_randCalls t - calls)\<rparr>)"
    and le: "calls \<le> ct_randCalls t" by simp_all
  from assms(1) t t' le show ?thesis
    by (auto simp: ct_simulateWiFi_def ct_throughput_def Let_def)
qed

lemma ct_simulateWiFi_same:
  assumes "\<forall>k. rnd (calls + k) = rnd' (calls' + k)"
  shows "map_option (\<lambda>r. (ct_shownThroughputMbps r, ct_shownAverageLatencyMs r, ct_shownMaximumLatencyMs r))
           (ct_simulateWiFi rnd gen calls users packets)
       = map_option (\<lambda>r. (ct_shownThroughputMbps r, ct_shownAverageLatencyMs r, ct_shownMaximumLatencyMs r))
           (ct_simulateWiFi rnd' gen calls' users packets)"
proof (cases "ct_simulateWiFi rnd gen calls users packets")
  case (Some r)
  from ct_simulateWiFi_shift[OF Some assms] Some show ?thesis by auto
next
  case None
  show ?thesis
  proof (cases "ct_simulateWiFi rnd' gen calls' users packets")
    case n: None
    with None show ?thesis by simp
  next
    case (Some r')
    from assms have "\<forall>k. rnd' (calls' + k) = rnd (calls + k)" by simp
    from ct_simulateWiFi_shift[OF Some this] None show ?thesis by auto
  qed
qed

section \<open>Claim C1: the order of a packet's timestamps\<close>

text \<open>
  In the multi-stream variant a packet can be transmitted before it arrives. With twenty
  users at 1000 metres and two packets each, the first packet of the second round (the
  packet at position 20 of the log) arrives at 10 ms, is sent from 9.8304 ms to 10.32192
  ms, and is counted as transmitted: all forty packets are.
\<close>

theorem ms_start_before_arrival:
  "ms_transmissionStart (ms_sentLog (ms_runSimulation (\<lambda>k. 0) 20 2 (ms_mkWiFiSimulation (\<lambda>i. 1000) 20)) ! 20)
     < ms_arrivalTimestamp (ms_sentLog (ms_runSimulation (\<lambda>k. 0) 20 2 (ms_mkWiFiSimulation (\<lambda>i. 1000) 20)) ! 20)
   \<and> ms_arrivalTimestamp (ms_sentLog (ms_runSimulation (\<lambda>k. 0) 20 2 (ms_mkWiFiSimulation (\<lambda>i. 1000) 20)) ! 20)
     < ms_transmissionEnd (ms_sentLog (ms_runSimulation (\<lambda>k. 0) 20 2 (ms_mkWiFiSimulation (\<lambda>i. 1000) 20)) ! 20)
   \<and> length (ms_sentLog (ms_runSimulation (\<lambda>k. 0) 20 2 (ms_mkWiFiSimulation (\<lambda>i. 1000) 20))) = 40
   \<and> ms_transmittedPackets (ms_runSimulation (\<lambda>k. 0) 20 2 (ms_mkWiFiSimulation (\<lambda>i. 1000) 20)) = 40"
proof (cases "ms_whileLoop (\<lambda>k. 0) (ms_prepared 2 (ms_mkWiFiSimulation (\<lambda>i. 1000) 20))")
  case (Inl e)
  with ms_twenty_run[of "\<lambda>k. 0"] show ?thesis by simp
next
  case (Inr s)
  with ms_twenty_run[of "\<lambda>k. 0"]
  have "ms_sentLog s ! 20 = \<lparr>ms_packetID = 1, ms_arrivalTimestamp = 1 / 100,
                              ms_transmissionStart = 768 / 78125, ms_transmissionEnd = 4032 / 390625\<rparr>"
    "ms_transmittedPackets s = 40" "length (ms_sentLog s) = 40"
    by simp_all
  with Inr show ?thesis by (simp add: ms_runSimulation_def)
qed

text \<open>
  Claim C1, as amended: in the sub-channel variant every transmitted packet is stamped
  with \<open>transmissionEndTime \<ge> transmissionStartTime \<ge> arrivalTime\<close>. In the
  multi-stream variant every packet for which \<open>sendPacket\<close> returns \<open>true\<close> is stamped
  with \<open>transmissionEnd \<ge> transmissionStart\<close>, and the packets counted as transmitted
  are exactly those among them with \<open>transmissionEnd > arrivalTimestamp\<close>; that loop does
  not wait for a packet's arrival, and \<open>transmissionStart \<ge> arrivalTimestamp\<close> is not
  part of what it ensures. The contention variant has no packets and no timestamps. The
  statement is for simulations built by the constructors.
\<close>

theorem stamps_ordered:
  "(sc_runSimulation packetsPerUser (sc_mkWiFiSimulation numUsers) = Inr st' \<longrightarrow>
      (\<forall>p \<in> set (sc_sentLog st').
          sc_arrivalTime p \<le> sc_transmissionStartTime p
          \<and> sc_transmissionStartTime p \<le> sc_transmissionEndTime p))
   \<and> (\<forall>p \<in> set (ms_sentLog (ms_runSimulation rd userCount packetsPerUser' (ms_mkWiFiSimulation rands userCount))).
          ms_transmissionStart p \<le> ms_transmissionEnd p)
   \<and> ms_transmittedPackets (ms_runSimulation rd userCount packetsPerUser' (ms_mkWiFiSimulation rands userCount))
        = int (length (filter (\<lambda>p. 0 < ms_transmissionEnd p - ms_arrivalTimestamp p)
            (ms_sentLog (ms_runSimulation rd userCount packetsPerUser' (ms_mkWiFiSimulation rands userCount)))))"
proof (intro conjI impI)
  assume run: "sc_runSimulation packetsPerUser (sc_mkWiFiSimulation numUsers) = Inr st'"
  then obtain st2 where w: "sc_whileLoop (sc_prepared packetsPerUser (sc_mkWiFiSimulation numUsers)) = Inr st2"
    and e: "st' = st2\<lparr>sc_totalTime := sc_currentTime st2\<rparr>"
    by (auto simp: sc_runSimulation_def split: sum.splits)
  from sc_whileLoop_sound[OF w sc_prepared_sound] have "sc_sound st2" by simp
  with e show "\<forall>p \<in> set (sc_sentLog st').
          sc_arrivalTime p \<le> sc_transmissionStartTime p
          \<and> sc_transmissionStartTime p \<le> sc_transmissionEndTime p"
    by (simp add: sc_sound_def sc_stamped_def)
next
  from ms_runSimulation_sound[of rd userCount packetsPerUser' rands]
  show "\<forall>p \<in> set (ms_sentLog (ms_runSimulation rd userCount packetsPerUser' (ms_mkWiFiSimulation rands userCount))).
          ms_transmissionStart p \<le> ms_transmissionEnd p"
    by (simp add: ms_sound_def)
next
  from ms_runSimulation_sound[of rd userCount packetsPerUser' rands]
  show "ms_transmittedPackets (ms_runSimulation rd userCount packetsPerUser' (ms_mkWiFiSimulation rands userCount))
        = int (length (filter (\<lambda>p. 0 < ms_transmissionEnd p - ms_arrivalTimestamp p)
            (ms_sentLog (ms_runSimulation rd userCount packetsPerUser' (ms_mkWiFiSimulation rands userCount)))))"
    by (simp add: ms_sound_def)
qed

theorem stamps_ordered_witness:
  "sc_runSimulation 2 (sc_mkWiFiSimulation 1) = Inr (sc_oneUserEnd\<lparr>sc_totalTime := 3221 / 312500\<rparr>)
   \<and> \<lparr>sc_id = 1, sc_arrivalTime = 1 / 100, sc_transmissionStartTime = 1 / 100,
        sc_transmissionEndTime = 3221 / 312500\<rparr>
        \<in> set (sc_sentLog (sc_oneUserEnd\<lparr>sc_totalTime := 3221 / 312500\<rparr>))
   \<and> sc_arrivalTime \<lparr>sc_id = 1, sc_arrivalTime = 1 / 100, sc_transmissionStartTime = 1 / 100,
        sc_transmissionEndTime = 3221 / 312500\<rparr>
       \<le> sc_transmissionStartTime \<lparr>sc_id = 1, sc_arrivalTime = 1 / 100,
        sc_transmissionStartTime = 1 / 100, sc_transmissionEndTime = 3221 / 312500\<rparr>
   \<and> sc_transmissionStartTime \<lparr>sc_id = 1, sc_arrivalTime = 1 / 100, sc_transmissionStartTime = 1 / 100,
        sc_transmissionEndTime = 3221 / 312500\<rparr>
       \<le> sc_transmissionEndTime \<lparr>sc_id = 1, sc_arrivalTime = 1 / 100,
        sc_transmissionStartTime = 1 / 100, sc_transmissionEndTime = 3221 / 312500\<rparr>
   \<and> \<lparr>ms_packetID = 1, ms_arrivalTimestamp = 1 / 100,
        ms_transmissionStart = 96 / 390625, ms_transmissionEnd = 192 / 390625\<rparr>
        \<in> set (ms_sentLog (ms_runSimulation (\<lambda>k. 0) 1 2 (ms_mkWiFiSimulation (\<lambda>i. 500) 1)))
   \<and> ms_transmissionStart \<lparr>ms_packetID = 1, ms_arrivalTimestamp = 1 / 100,
        ms_transmissionStart = 96 / 390625, ms_transmissionEnd = 192 / 390625\<rparr>
       \<le> ms_transmissionEnd \<lparr>ms_packetID = 1, ms_arrivalTimestamp = 1 / 100,
        ms_transmissionStart = 96 / 390625, ms_transmissionEnd = 192 / 390625\<rparr>
   \<and> ms_transmittedPackets (ms_runSimulation (\<lambda>k. 0) 1 2 (ms_mkWiFiSimulation (\<lambda>i. 500) 1)) = 1
   \<and> length (filter (\<lambda>p. 0 < ms_transmissionEnd p - ms_arrivalTimestamp p)
         (ms_sentLog (ms_runSimulation (\<lambda>k. 0) 1 2 (ms_mkWiFiSimulation (\<lambda>i. 500) 1)))) = 1"
proof -
  let ?sp = "\<lparr>sc_id = 1, sc_arrivalTime = 1 / 100, sc_transmissionStartTime = 1 / 100,
        sc_transmissionEndTime = 3221 / 312500\<rparr>"
  let ?mp = "\<lparr>ms_packetID = 1, ms_arrivalTimestamp = 1 / 100,
        ms_transmissionStart = 96 / 390625, ms_transmissionEnd = 192 / 390625\<rparr>"
  let ?ms = "ms_runSimulation (\<lambda>k. 0) 1 2 (ms_mkWiFiSimulation (\<lambda>i. 500) 1)"
  note t = stamps_ordered[where packetsPerUser = 2 and numUsers = 1
      and st' = "sc_oneUserEnd\<lparr>sc_totalTime := 3221 / 312500\<rparr>"
      and rd = "\<lambda>k. 0" and userCount = 1 and packetsPerUser' = 2 and rands = "\<lambda>i. 500"]
  have m1: "?sp \<in> set (sc_sentLog (sc_oneUserEnd\<lparr>sc_totalTime := 3221 / 312500\<rparr>))"
    by (simp add: sc_oneUserEnd_def)
  have m2: "?mp \<in> set (ms_sentLog ?ms)"
    by (simp add: ms_oneUser_run)
  from t sc_oneUser_run m1 have a: "sc_arrivalTime ?sp \<le> sc_transmissionStartTime ?sp
      \<and> sc_transmissionStartTime ?sp \<le> sc_transmissionEndTime ?sp"
    by blast
  from t m2 have b: "ms_transmissionStart ?mp \<le> ms_transmissionEnd ?mp"
    by blast
  from t have c: "ms_transmittedPackets ?ms
      = int (length (filter (\<lambda>p. 0 < ms_transmissionEnd p - ms_arrivalTimestamp p) (ms_sentLog ?ms)))"
    by blast
  have m3: "ms_transmittedPackets ?ms = 1"
    by (simp add: ms_oneUser_run)
  from c m3 have d: "length (filter (\<lambda>p. 0 < ms_transmissionEnd p - ms_arrivalTimestamp p)
      (ms_sentLog ?ms)) = 1"
    by simp
  from a have a1: "sc_arrivalTime ?sp \<le> sc_transmissionStartTime ?sp"
    and a2: "sc_transmissionStartTime ?sp \<le> sc_transmissionEndTime ?sp" by blast+
  from sc_oneUser_run m1 a1 a2 m2 b m3 d show ?thesis by (intro conjI)
qed

section \<open>Claim C2: the loop of the sub-channel variant ends, and only when the queues are empty\<close>

text \<open>
  Claim C2: in the sub-channel variant the simulation loop terminates, and it terminates
  exactly when every user's queue is empty or the clock has reached the ceiling; it never
  exits while some queue is non-empty and the clock is below the ceiling.

  The constructor takes any \<open>int\<close>. With no user (\<open>numUsers \<le> 0\<close>) the loop does not
  terminate in that way: its first pass reads \<open>users[currentRoundRobinUser]\<close> of an empty
  vector, before any test of the queues, and the run ends there, outside the defined
  behaviour of the program.

  With at least one user, \<open>runSimulation\<close> returns (the loop function is total, and never
  reads outside the vector of users), and at that moment every queue is empty or the clock
  is at or above the ceiling. At every head of the loop that the run reaches, the exit
  test after the pass holds exactly when every queue was empty when the pass began or the
  clock is at or above the ceiling. The clock in fact stays below the ceiling throughout,
  so the loop always ends on empty queues.
\<close>

theorem sc_loop_exit:
  "(numUsers \<le> 0 \<longrightarrow>
      sc_runSimulation packetsPerUser (sc_mkWiFiSimulation numUsers) = Inl OutOfRange)
   \<and> (0 < numUsers \<longrightarrow>
       (\<exists>st'. sc_runSimulation packetsPerUser (sc_mkWiFiSimulation numUsers) = Inr st'
            \<and> ((\<forall>u \<in> set (sc_users st'). sc_packetQueue u = [])
                 \<or> sc_totalTime st' \<ge> real_of_int sc_MAX_SIMULATION_TIME)
            \<and> sc_totalTime st' < real_of_int sc_MAX_SIMULATION_TIME)
       \<and> (sc_loopHead numUsers packetsPerUser st \<longrightarrow>
            (\<exists>st'. sc_pass st = Inr st'
               \<and> ((sc_allQueuesEmpty st' \<or> sc_currentTime st' \<ge> real_of_int sc_MAX_SIMULATION_TIME)
                    = ((\<forall>u \<in> set (sc_users st). sc_packetQueue u = [])
                       \<or> sc_currentTime st' \<ge> real_of_int sc_MAX_SIMULATION_TIME))
               \<and> sc_currentTime st' < real_of_int sc_MAX_SIMULATION_TIME)))"
proof (intro conjI impI)
  assume "numUsers \<le> 0"
  then show "sc_runSimulation packetsPerUser (sc_mkWiFiSimulation numUsers) = Inl OutOfRange"
    by (rule sc_noUsers_outOfRange)
next
  assume pos: "0 < numUsers"
  let ?K = "min (nat packetsPerUser) 50"
  have K: "?K \<le> 50" by simp
  from sc_whileLoop_inv[OF sc_prepared_inv[OF pos]] obtain st1 where
    w: "sc_whileLoop (sc_prepared packetsPerUser (sc_mkWiFiSimulation numUsers)) = Inr st1"
    and i: "sc_runInv ?K st1"
    and e: "(\<forall>u \<in> set (sc_users st1). sc_packetQueue u = [])
           \<or> sc_currentTime st1 \<ge> real_of_int sc_MAX_SIMULATION_TIME"
    by blast
  from sc_runInv_below_ceiling[OF i K] e w
  show "\<exists>st'. sc_runSimulation packetsPerUser (sc_mkWiFiSimulation numUsers) = Inr st'
            \<and> ((\<forall>u \<in> set (sc_users st'). sc_packetQueue u = [])
                 \<or> sc_totalTime st' \<ge> real_of_int sc_MAX_SIMULATION_TIME)
            \<and> sc_totalTime st' < real_of_int sc_MAX_SIMULATION_TIME"
    by (simp add: sc_runSimulation_def)
next
  assume pos: "0 < numUsers" and head: "sc_loopHead numUsers packetsPerUser st"
  let ?K = "min (nat packetsPerUser) 50"
  have K: "?K \<le> 50" by simp
  from sc_pass_inv[OF sc_loopHead_inv[OF pos head]] obtain st' where
    p: "sc_pass st = Inr st'" and i: "sc_runInv ?K st'"
    and f: "sc_allQueuesEmpty st' = (\<forall>u \<in> set (sc_users st). sc_packetQueue u = [])"
    by blast
  from sc_runInv_below_ceiling[OF i K] p f
  show "\<exists>st'. sc_pass st = Inr st'
             \<and> ((sc_allQueuesEmpty st' \<or> sc_currentTime st' \<ge> real_of_int sc_MAX_SIMULATION_TIME)
                  = ((\<forall>u \<in> set (sc_users st). sc_packetQueue u = [])
                     \<or> sc_currentTime st' \<ge> real_of_int sc_MAX_SIMULATION_TIME))
             \<and> sc_currentTime st' < real_of_int sc_MAX_SIMULATION_TIME"
    by simp
qed

theorem sc_loop_exit_witness:
  "(0::int) \<le> 0
   \<and> sc_runSimulation 10 (sc_mkWiFiSimulation 0) = Inl OutOfRange
   \<and> (0::int) < 1
   \<and> sc_loopHead 1 1 (sc_prepared 1 (sc_mkWiFiSimulation 1))
   \<and> (\<exists>st'. sc_runSimulation 1 (sc_mkWiFiSimulation 1) = Inr st'
            \<and> ((\<forall>u \<in> set (sc_users st'). sc_packetQueue u = [])
                 \<or> sc_totalTime st' \<ge> real_of_int sc_MAX_SIMULATION_TIME)
            \<and> sc_totalTime st' < real_of_int sc_MAX_SIMULATION_TIME)
   \<and> (\<exists>st'. sc_pass (sc_prepared 1 (sc_mkWiFiSimulation 1)) = Inr st'
               \<and> ((sc_allQueuesEmpty st' \<or> sc_currentTime st' \<ge> real_of_int sc_MAX_SIMULATION_TIME)
                    = ((\<forall>u \<in> set (sc_users (sc_prepared 1 (sc_mkWiFiSimulation 1))). sc_packetQueue u = [])
                       \<or> sc_currentTime st' \<ge> real_of_int sc_MAX_SIMULATION_TIME))
               \<and> sc_currentTime st' < real_of_int sc_MAX_SIMULATION_TIME)"
proof -
  have z: "(0::int) \<le> 0" by simp
  have pos: "(0::int) < 1" by simp
  have head: "sc_loopHead 1 1 (sc_prepared 1 (sc_mkWiFiSimulation 1))" by (rule sc_loopHead.entry)
  from sc_loop_exit[of 0 10] z
  have none: "sc_runSimulation 10 (sc_mkWiFiSimulation 0) = Inl OutOfRange" by blast
  from sc_loop_exit[of 1 1 "sc_prepared 1 (sc_mkWiFiSimulation 1)"] pos head none z
  show ?thesis by blast
qed

section \<open>Claim C3: backoff in the multi-stream variant\<close>

text \<open>
  Claim C3: in the multi-stream variant the absence of a free stream never adds random
  backoff delay to the simulated clock.

  The source has a waiting loop in front of every transmission
  (\<open>while ((streamIdx = channel.findAvailableStream()) == -1)\<close>, which would add
  \<open>randomBackoffTime()\<close> to the clock), but its test never holds: the constructor builds
  the channel with every stream free and \<open>sendPacket\<close> releases the stream it reserves
  before it returns. So, for every simulation the constructor builds, every random
  device and every number of packets: the run is the same whatever the random device
  would deliver, no value is drawn from it, and the channel ends as it was built; an
  acquisition on that channel returns stream 0 at once, with the clock and the number of
  draws unchanged; and each step of the loop (one user served) that starts with a free
  stream keeps the channel, draws nothing, and moves the clock by nothing or by the time
  on air of that user's packet.
\<close>

theorem ms_runs_take_no_backoff:
  "ms_runSimulation rd userCount packetsPerUser (ms_mkWiFiSimulation rands userCount)
     = ms_runSimulation rd' userCount packetsPerUser (ms_mkWiFiSimulation rands userCount)
   \<and> ms_entropyUsed (ms_runSimulation rd userCount packetsPerUser (ms_mkWiFiSimulation rands userCount)) = 0
   \<and> ms_channel (ms_runSimulation rd userCount packetsPerUser (ms_mkWiFiSimulation rands userCount))
        = ms_mkFrequencyChannel ms_MAX_STREAMS
   \<and> ms_awaitStream rd (ms_mkFrequencyChannel ms_MAX_STREAMS) k t = Inr (0, k, t)
   \<and> (ms_findAvailableStream (ms_channel st) \<noteq> - 1 \<longrightarrow>
        (\<exists>st'. ms_serveUser rd i st = Inr st'
           \<and> ms_channel st' = ms_channel st \<and> ms_entropyUsed st' = ms_entropyUsed st
           \<and> (ms_currentTime st' = ms_currentTime st
                \<or> ms_currentTime st' = ms_currentTime st + ms_timeToTransmit (ms_users st ! i))))"
proof -
  let ?st = "ms_prepared packetsPerUser (ms_mkWiFiSimulation rands userCount)"
  have "ms_findAvailableStream (ms_channel ?st) \<noteq> - 1"
    by (simp add: ms_prepared_fields ms_mkWiFiSimulation_free)
  from ms_whileLoop_free[OF this, of rd rd'] obtain st' where
    w: "ms_whileLoop rd ?st = Inr st'" "ms_whileLoop rd' ?st = Inr st'"
    and c: "ms_channel st' = ms_channel ?st" "ms_entropyUsed st' = ms_entropyUsed ?st"
    by blast
  have run: "ms_runSimulation rd userCount packetsPerUser (ms_mkWiFiSimulation rands userCount)
      = st'\<lparr>ms_simulationTime := ms_currentTime st'\<rparr>"
    "ms_runSimulation rd' userCount packetsPerUser (ms_mkWiFiSimulation rands userCount)
      = st'\<lparr>ms_simulationTime := ms_currentTime st'\<rparr>"
    using w by (simp_all add: ms_runSimulation_def)
  have e: "ms_entropyUsed ?st = 0" "ms_channel ?st = ms_mkFrequencyChannel ms_MAX_STREAMS"
    by (simp_all add: ms_prepared_fields ms_mkWiFiSimulation_def)
  have f: "ms_findAvailableStream (ms_mkFrequencyChannel ms_MAX_STREAMS) = 0"
    by (simp add: ms_channel_initial ms_findAvailableStream_def)
  then have a: "ms_awaitStream rd (ms_mkFrequencyChannel ms_MAX_STREAMS) k t = Inr (0, k, t)"
    using ms_awaitStream_free[of "ms_mkFrequencyChannel ms_MAX_STREAMS" rd k t] by simp
  have s: "ms_findAvailableStream (ms_channel st) \<noteq> - 1 \<longrightarrow>
        (\<exists>st'. ms_serveUser rd i st = Inr st'
           \<and> ms_channel st' = ms_channel st \<and> ms_entropyUsed st' = ms_entropyUsed st
           \<and> (ms_currentTime st' = ms_currentTime st
                \<or> ms_currentTime st' = ms_currentTime st + ms_timeToTransmit (ms_users st ! i)))"
    using ms_serveUser_free[of st rd i rd] by blast
  from run c e a s show ?thesis by simp
qed

theorem ms_runs_take_no_backoff_witness:
  "ms_findAvailableStream (ms_channel (ms_prepared 2 (ms_mkWiFiSimulation (\<lambda>i. 500) 1))) \<noteq> - 1
   \<and> (\<exists>st'. ms_serveUser (\<lambda>k. 4) 0 (ms_prepared 2 (ms_mkWiFiSimulation (\<lambda>i. 500) 1)) = Inr st'
           \<and> ms_channel st' = ms_channel (ms_prepared 2 (ms_mkWiFiSimulation (\<lambda>i. 500) 1))
           \<and> ms_entropyUsed st' = 0)
   \<and> ms_awaitStream (\<lambda>k. 4) (ms_mkFrequencyChannel ms_MAX_STREAMS) 0 0 = Inr (0, 0, 0)
   \<and> ms_entropyUsed (ms_runSimulation (\<lambda>k. 4) 1 2 (ms_mkWiFiSimulation (\<lambda>i. 500) 1)) = 0
   \<and> ms_runSimulation (\<lambda>k. 4) 1 2 (ms_mkWiFiSimulation (\<lambda>i. 500) 1)
        = ms_runSimulation (\<lambda>k. 9) 1 2 (ms_mkWiFiSimulation (\<lambda>i. 500) 1)"
proof -
  let ?st = "ms_prepared 2 (ms_mkWiFiSimulation (\<lambda>i. 500) 1)"
  have free: "ms_findAvailableStream (ms_channel ?st) \<noteq> - 1"
    by (simp add: ms_prepared_fields ms_mkWiFiSimulation_free)
  have e0: "ms_entropyUsed ?st = 0"
    by (simp add: ms_prepared_fields ms_mkWiFiSimulation_def)
  note t = ms_runs_take_no_backoff[of "\<lambda>k. 4" 1 2 "\<lambda>i. 500" "\<lambda>k. 9" 0 0 ?st 0]
  from t have a: "ms_runSimulation (\<lambda>k. 4) 1 2 (ms_mkWiFiSimulation (\<lambda>i. 500) 1)
        = ms_runSimulation (\<lambda>k. 9) 1 2 (ms_mkWiFiSimulation (\<lambda>i. 500) 1)" by (rule conjunct1)
  from t have b: "ms_entropyUsed (ms_runSimulation (\<lambda>k. 4) 1 2 (ms_mkWiFiSimulation (\<lambda>i. 500) 1)) = 0"
    by blast
  from t have c: "ms_awaitStream (\<lambda>k. 4) (ms_mkFrequencyChannel ms_MAX_STREAMS) 0 0 = Inr (0, 0, 0)"
    by blast
  from t free obtain st' where "ms_serveUser (\<lambda>k. 4) 0 ?st = Inr st'"
    "ms_channel st' = ms_channel ?st" "ms_entropyUsed st' = ms_entropyUsed ?st"
    by blast
  with e0 have d: "\<exists>st'. ms_serveUser (\<lambda>k. 4) 0 ?st = Inr st'
           \<and> ms_channel st' = ms_channel ?st \<and> ms_entropyUsed st' = 0"
    by auto
  from free d c b a show ?thesis by (intro conjI)
qed

section \<open>Claim C4: the throughput that is reported\<close>

text \<open>
  The multi-stream run with one user and two packets counts one packet in 0.49152 ms:
  8192 bits over that time is 16.67 Mbit/s, and \<open>displayResults\<close> shows 17.67, the value
  divided by the number of users plus the constant 1.
\<close>

theorem ms_shown_throughput_adjusted:
  "ms_displayResults (ms_runSimulation (\<lambda>k. 0) 1 2 (ms_mkWiFiSimulation (\<lambda>i. 500) 1)) 1
     = Inr \<lparr>ms_shownThroughputMbps = 53 / 3, ms_shownAverageLatencyMs = 768 / 3125,
            ms_shownMaximumLatencyMs = 768 / 3125, ms_shownDroppedPackets = 0\<rparr>
   \<and> real_of_int (ms_transmittedPackets (ms_runSimulation (\<lambda>k. 0) 1 2 (ms_mkWiFiSimulation (\<lambda>i. 500) 1))
                   * ms_PACKET_SIZE_BYTES * 8)
       / ms_simulationTime (ms_runSimulation (\<lambda>k. 0) 1 2 (ms_mkWiFiSimulation (\<lambda>i. 500) 1))
     = 50000000 / 3"
  by (simp add: ms_oneUser_run ms_displayResults_def ms_throughput_def ms_PACKET_SIZE_BYTES_def)

text \<open>
  Claim C4, as amended: for every run with a positive transmitted count (and a positive
  final clock, the product of count and packet size within the range of \<open>int\<close>), the
  local \<open>throughput\<close> is \<open>transmittedCount * packetSizeBits / finalClock\<close>, and the value
  shown is \<open>(throughput / 1e6) / userCount + c\<close>: in the multi-stream variant \<open>c\<close> is 1 for
  one user, 3 for ten users and 2 otherwise; in the sub-channel variant \<open>c\<close> is 1. The
  contention variant shows \<open>throughput / 1e6\<close> as it is.
\<close>

theorem throughput_as_displayed:
  "(0 < ms_transmittedPackets st \<and> ms_transmittedPackets st * ms_PACKET_SIZE_BYTES * 8 < 2 ^ 31
      \<and> 0 < ms_simulationTime st \<longrightarrow>
      (\<exists>r. ms_displayResults st userCount = Inr r
         \<and> ms_shownThroughputMbps r
            = (real_of_int (ms_transmittedPackets st) * real_of_int (ms_PACKET_SIZE_BYTES * 8)
                 / ms_simulationTime st / 1000000) / real_of_int userCount
              + (if userCount = 1 then 1 else if userCount = 10 then 3 else 2)))
   \<and> (0 < sc_totalPackets sst \<and> sc_totalPackets sst * sc_PACKET_SIZE_BYTES * 8 < 2 ^ 31
      \<and> 0 < sc_totalTime sst \<longrightarrow>
      (\<exists>r. sc_displayResults sst numUsers = Inr r
         \<and> sc_shownThroughputMbps r
            = (real_of_int (sc_totalPackets sst) * real_of_int (sc_PACKET_SIZE_BYTES * 8)
                 / sc_totalTime sst / 1000000) / real_of_int numUsers + 1))
   \<and> (ct_simulateWiFi rnd gen calls users packets = Some cr \<and> packets * ct_PACKET_SIZE < 2 ^ 31 \<longrightarrow>
      (\<exists>s. ct_forPackets rnd gen users (nat packets)
               \<lparr>ct_latencies = [], ct_total_time = 0, ct_randCalls = calls, ct_draws = 0\<rparr> = Some s
         \<and> ct_shownThroughputMbps cr
            = real_of_int packets * real_of_int ct_PACKET_SIZE / ct_total_time s / 1000000))"
proof (intro conjI impI)
  assume "0 < ms_transmittedPackets st \<and> ms_transmittedPackets st * ms_PACKET_SIZE_BYTES * 8 < 2 ^ 31
      \<and> 0 < ms_simulationTime st"
  then show "\<exists>r. ms_displayResults st userCount = Inr r
         \<and> ms_shownThroughputMbps r
            = (real_of_int (ms_transmittedPackets st) * real_of_int (ms_PACKET_SIZE_BYTES * 8)
                 / ms_simulationTime st / 1000000) / real_of_int userCount
              + (if userCount = 1 then 1 else if userCount = 10 then 3 else 2)"
    by (simp add: ms_displayResults_def ms_throughput_def Let_def)
next
  assume "0 < sc_totalPackets sst \<and> sc_totalPackets sst * sc_PACKET_SIZE_BYTES * 8 < 2 ^ 31
      \<and> 0 < sc_totalTime sst"
  then show "\<exists>r. sc_displayResults sst numUsers = Inr r
         \<and> sc_shownThroughputMbps r
            = (real_of_int (sc_totalPackets sst) * real_of_int (sc_PACKET_SIZE_BYTES * 8)
                 / sc_totalTime sst / 1000000) / real_of_int numUsers + 1"
    by (simp add: sc_displayResults_def sc_throughput_def Let_def)
next
  assume a: "ct_simulateWiFi rnd gen calls users packets = Some cr \<and> packets * ct_PACKET_SIZE < 2 ^ 31"
  then obtain s where s: "ct_forPackets rnd gen users (nat packets)
               \<lparr>ct_latencies = [], ct_total_time = 0, ct_randCalls = calls, ct_draws = 0\<rparr> = Some s"
    by (auto simp: ct_simulateWiFi_def split: option.splits)
  with a have "ct_shownThroughputMbps cr
      = real_of_int packets * real_of_int ct_PACKET_SIZE / ct_total_time s / 1000000"
    by (auto simp: ct_simulateWiFi_def ct_throughput_def Let_def)
  with s show "\<exists>s. ct_forPackets rnd gen users (nat packets)
               \<lparr>ct_latencies = [], ct_total_time = 0, ct_randCalls = calls, ct_draws = 0\<rparr> = Some s
         \<and> ct_shownThroughputMbps cr
            = real_of_int packets * real_of_int ct_PACKET_SIZE / ct_total_time s / 1000000"
    by blast
qed

lemma ct_one_packet:
  "ct_whileTrue (\<lambda>k. 0) (\<lambda>k. 0) 1 0
     \<lparr>ct_latencies = [], ct_total_time = 0, ct_randCalls = 0, ct_draws = 0\<rparr>
   = Some \<lparr>ct_latencies = [ct_TRANSMISSION_TIME], ct_total_time = ct_TRANSMISSION_TIME,
           ct_randCalls = 1, ct_draws = 0\<rparr>"
proof -
  have free: "ct_channelFree 1 (ct_rand 0)"
    by (simp add: ct_channelFree_def ct_rand_def ct_RAND_MAX_def)
  show ?thesis
    by (subst ct_whileTrue.simps) (simp add: ct_attempt_def free)
qed

lemma ct_one_report:
  "ct_simulateWiFi (\<lambda>k. 0) (\<lambda>k. 0) 0 1 1
     = Some \<lparr>ct_shownThroughputMbps = 400 / 3, ct_shownAverageLatencyMs = 192 / 3125,
             ct_shownMaximumLatencyMs = 192 / 3125, ct_randCallsAfter = 1\<rparr>"
  by (simp add: ct_simulateWiFi_def ct_one_packet ct_throughput_def ct_TRANSMISSION_TIME_def
      ct_DATA_RATE_def ct_PACKET_SIZE_def ct_BANDWIDTH_def ct_MODULATION_def ct_CODING_RATE_def)

theorem throughput_as_displayed_witness:
  "0 < ms_transmittedPackets (ms_runSimulation (\<lambda>k. 0) 1 2 (ms_mkWiFiSimulation (\<lambda>i. 500) 1))
   \<and> 0 < ms_simulationTime (ms_runSimulation (\<lambda>k. 0) 1 2 (ms_mkWiFiSimulation (\<lambda>i. 500) 1))
   \<and> (\<exists>r. ms_displayResults (ms_runSimulation (\<lambda>k. 0) 1 2 (ms_mkWiFiSimulation (\<lambda>i. 500) 1)) 1 = Inr r
         \<and> ms_shownThroughputMbps r = 50 / 3 / 1 + 1)
   \<and> sc_runSimulation 2 (sc_mkWiFiSimulation 1) = Inr (sc_oneUserEnd\<lparr>sc_totalTime := 3221 / 312500\<rparr>)
   \<and> (\<exists>r. sc_displayResults (sc_oneUserEnd\<lparr>sc_totalTime := 3221 / 312500\<rparr>) 1 = Inr r
         \<and> sc_shownThroughputMbps r = 5120 / 3221 / 1 + 1)
   \<and> (\<exists>r. ct_simulateWiFi (\<lambda>k. 0) (\<lambda>k. 0) 0 1 1 = Some r \<and> ct_shownThroughputMbps r = 400 / 3)"
proof -
  let ?ms = "ms_runSimulation (\<lambda>k. 0) 1 2 (ms_mkWiFiSimulation (\<lambda>i. 500) 1)"
  let ?sc = "sc_oneUserEnd\<lparr>sc_totalTime := 3221 / 312500\<rparr>"
  let ?cr = "\<lparr>ct_shownThroughputMbps = 400 / 3, ct_shownAverageLatencyMs = 192 / 3125,
             ct_shownMaximumLatencyMs = 192 / 3125, ct_randCallsAfter = 1\<rparr>"
  have h1: "0 < ms_transmittedPackets ?ms \<and> ms_transmittedPackets ?ms * ms_PACKET_SIZE_BYTES * 8 < 2 ^ 31
      \<and> 0 < ms_simulationTime ?ms"
    by (simp add: ms_oneUser_run ms_PACKET_SIZE_BYTES_def)
  have h2: "0 < sc_totalPackets ?sc \<and> sc_totalPackets ?sc * sc_PACKET_SIZE_BYTES * 8 < 2 ^ 31
      \<and> 0 < sc_totalTime ?sc"
    by (simp add: sc_oneUserEnd_def sc_PACKET_SIZE_BYTES_def)
  note t = throughput_as_displayed[where st = ?ms and userCount = 1 and sst = ?sc and numUsers = 1]
  have v1: "real_of_int (ms_transmittedPackets ?ms) * real_of_int (ms_PACKET_SIZE_BYTES * 8)
      / ms_simulationTime ?ms / 1000000 = 50 / 3"
    by (simp add: ms_oneUser_run ms_PACKET_SIZE_BYTES_def)
  have v2: "real_of_int (sc_totalPackets ?sc) * real_of_int (sc_PACKET_SIZE_BYTES * 8)
      / sc_totalTime ?sc / 1000000 = 5120 / 3221"
    by (simp add: sc_oneUserEnd_def sc_PACKET_SIZE_BYTES_def)
  from t h1 obtain r1 where r1: "ms_displayResults ?ms 1 = Inr r1"
    "ms_shownThroughputMbps r1
       = (real_of_int (ms_transmittedPackets ?ms) * real_of_int (ms_PACKET_SIZE_BYTES * 8)
            / ms_simulationTime ?ms / 1000000) / real_of_int 1
         + (if (1::int) = 1 then 1 else if (1::int) = 10 then 3 else 2)"
    by blast
  from r1(2) have "ms_shownThroughputMbps r1 = 50 / 3 / 1 + 1" unfolding v1 by simp
  with r1(1) have a: "\<exists>r. ms_displayResults ?ms 1 = Inr r \<and> ms_shownThroughputMbps r = 50 / 3 / 1 + 1"
    by blast
  from t h2 obtain r2 where r2: "sc_displayResults ?sc 1 = Inr r2"
    "sc_shownThroughputMbps r2
       = (real_of_int (sc_totalPackets ?sc) * real_of_int (sc_PACKET_SIZE_BYTES * 8)
            / sc_totalTime ?sc / 1000000) / real_of_int 1 + 1"
    by blast
  from r2(2) have "sc_shownThroughputMbps r2 = 5120 / 3221 / 1 + 1" unfolding v2 by simp
  with r2(1) have b: "\<exists>r. sc_displayResults ?sc 1 = Inr r \<and> sc_shownThroughputMbps r = 5120 / 3221 / 1 + 1"
    by blast
  have c: "\<exists>r. ct_simulateWiFi (\<lambda>k. 0) (\<lambda>k. 0) 0 1 1 = Some r \<and> ct_shownThroughputMbps r = 400 / 3"
    by (simp add: ct_one_report)
  from h1 have h1a: "0 < ms_transmittedPackets ?ms" and h1b: "0 < ms_simulationTime ?ms" by simp_all
  from h1a h1b a sc_oneUser_run b c show ?thesis by (intro conjI)
qed

section \<open>Claim C5: a run aborted during the backoff wait\<close>



section \<open>Claim C6: the bound on a user's queue\<close>

text \<open>
  The multi-stream \<open>generatePackets\<close> has no capacity check and its users have no drop
  counter: generating 51 packets leaves 51 in the queue, more than the 50 that the
  sub-channel variant configures.
\<close>

theorem ms_generatePackets_unbounded:
  "length (ms_packetQueue (ms_generatePackets 51 0 (ms_mkUser 0 0))) = 51
   \<and> sc_MAX_QUEUE_SIZE < int (length (ms_packetQueue (ms_generatePackets 51 0 (ms_mkUser 0 0))))"
  by (simp add: ms_generatePackets_closed ms_mkUser_def sc_MAX_QUEUE_SIZE_def)

text \<open>
  Claim C6, as amended: in the sub-channel variant, each step of \<open>generatePackets\<close> that
  finds the queue at \<open>MAX_QUEUE_SIZE\<close> or above increments the user's drop counter and
  enqueues nothing, and each other step enqueues one packet; so a queue within the
  maximum stays within it, ends with \<open>min (old size + count) 50\<close> packets, and the
  counter grows by the number of packets that did not fit; after the packets of a run
  are generated no queue exceeds the maximum. The multi-stream \<open>generatePackets\<close> has no
  maximum and enqueues all \<open>count\<close> packets.
\<close>

theorem generatePackets_bounded:
  "(sc_MAX_QUEUE_SIZE \<le> int (length (sc_packetQueue u)) \<longrightarrow>
      sc_generateStep t i u = u\<lparr>sc_droppedPackets := sc_droppedPackets u + 1\<rparr>)
   \<and> (int (length (sc_packetQueue u)) < sc_MAX_QUEUE_SIZE \<longrightarrow>
      sc_generateStep t i u
        = u\<lparr>sc_packetQueue := sc_packetQueue u @ [sc_mkPacket i (t + real_of_int i * (1 / 100))]\<rparr>)
   \<and> (int (length (sc_packetQueue u)) \<le> sc_MAX_QUEUE_SIZE \<longrightarrow>
      int (length (sc_packetQueue (sc_generatePackets numPackets t u))) \<le> sc_MAX_QUEUE_SIZE
      \<and> length (sc_packetQueue (sc_generatePackets numPackets t u))
          = min (length (sc_packetQueue u) + nat numPackets) 50
      \<and> sc_droppedPackets (sc_generatePackets numPackets t u)
          = sc_droppedPackets u
            + int (length (sc_packetQueue u) + nat numPackets
                   - min (length (sc_packetQueue u) + nat numPackets) 50))
   \<and> (\<forall>v \<in> set (sc_users (sc_prepared packetsPerUser (sc_mkWiFiSimulation numUsers))).
         int (length (sc_packetQueue v)) \<le> sc_MAX_QUEUE_SIZE)
   \<and> length (ms_packetQueue (ms_generatePackets packetCount t' w))
        = length (ms_packetQueue w) + nat packetCount"
proof (intro conjI impI)
  assume "sc_MAX_QUEUE_SIZE \<le> int (length (sc_packetQueue u))"
  then show "sc_generateStep t i u = u\<lparr>sc_droppedPackets := sc_droppedPackets u + 1\<rparr>"
    by (rule sc_generateStep_full)
next
  assume "int (length (sc_packetQueue u)) < sc_MAX_QUEUE_SIZE"
  then show "sc_generateStep t i u
        = u\<lparr>sc_packetQueue := sc_packetQueue u @ [sc_mkPacket i (t + real_of_int i * (1 / 100))]\<rparr>"
    by (simp add: sc_generateStep_def)
next
  assume a: "int (length (sc_packetQueue u)) \<le> sc_MAX_QUEUE_SIZE"
  then show "int (length (sc_packetQueue (sc_generatePackets numPackets t u))) \<le> sc_MAX_QUEUE_SIZE"
    by (simp add: sc_generatePackets_closed sc_MAX_QUEUE_SIZE_def)
  from a show "length (sc_packetQueue (sc_generatePackets numPackets t u))
          = min (length (sc_packetQueue u) + nat numPackets) 50"
    by (simp add: sc_generatePackets_closed sc_MAX_QUEUE_SIZE_def)
  from a show "sc_droppedPackets (sc_generatePackets numPackets t u)
          = sc_droppedPackets u
            + int (length (sc_packetQueue u) + nat numPackets
                   - min (length (sc_packetQueue u) + nat numPackets) 50)"
    by (simp add: sc_generatePackets_closed sc_MAX_QUEUE_SIZE_def)
next
  show "\<forall>v \<in> set (sc_users (sc_prepared packetsPerUser (sc_mkWiFiSimulation numUsers))).
         int (length (sc_packetQueue v)) \<le> sc_MAX_QUEUE_SIZE"
    by (auto simp: sc_prepared_def sc_mkWiFiSimulation_def sc_generatePackets_closed sc_mkUser_def
        sc_MAX_QUEUE_SIZE_def)
next
  show "length (ms_packetQueue (ms_generatePackets packetCount t' w))
        = length (ms_packetQueue w) + nat packetCount"
    by (simp add: ms_generatePackets_closed)
qed

theorem generatePackets_bounded_witness:
  "int (length (sc_packetQueue (sc_mkUser 0))) \<le> sc_MAX_QUEUE_SIZE
   \<and> length (sc_packetQueue (sc_generatePackets 60 0 (sc_mkUser 0))) = 50
   \<and> sc_droppedPackets (sc_generatePackets 60 0 (sc_mkUser 0)) = 10
   \<and> sc_MAX_QUEUE_SIZE \<le> int (length (sc_packetQueue (sc_generatePackets 60 0 (sc_mkUser 0))))
   \<and> sc_generateStep 0 60 (sc_generatePackets 60 0 (sc_mkUser 0))
       = (sc_generatePackets 60 0 (sc_mkUser 0))\<lparr>sc_droppedPackets := 11\<rparr>
   \<and> sc_generateStep 0 0 (sc_mkUser 0) = (sc_mkUser 0)\<lparr>sc_packetQueue := [sc_mkPacket 0 0]\<rparr>
   \<and> sc_mkUser 0 \<in> set (sc_users (sc_mkWiFiSimulation 1))
   \<and> (sc_generatePackets 60 0 (sc_mkUser 0)) \<in> set (sc_users (sc_prepared 60 (sc_mkWiFiSimulation 1)))
   \<and> int (length (sc_packetQueue (sc_generatePackets 60 0 (sc_mkUser 0)))) \<le> sc_MAX_QUEUE_SIZE"
proof -
  have h0: "int (length (sc_packetQueue (sc_mkUser 0))) \<le> sc_MAX_QUEUE_SIZE"
    "int (length (sc_packetQueue (sc_mkUser 0))) < sc_MAX_QUEUE_SIZE"
    by (simp_all add: sc_mkUser_def sc_MAX_QUEUE_SIZE_def)
  note a = generatePackets_bounded[where u = "sc_mkUser 0" and numPackets = 60 and t = 0 and i = 0
      and packetsPerUser = 60 and numUsers = 1]
  from a h0 have len: "length (sc_packetQueue (sc_generatePackets 60 0 (sc_mkUser 0))) = 50"
    and drp: "sc_droppedPackets (sc_generatePackets 60 0 (sc_mkUser 0)) = 10"
    and one: "sc_generateStep 0 0 (sc_mkUser 0) = (sc_mkUser 0)\<lparr>sc_packetQueue := [sc_mkPacket 0 0]\<rparr>"
    by (simp_all add: sc_mkUser_def)
  from len have full: "sc_MAX_QUEUE_SIZE \<le> int (length (sc_packetQueue (sc_generatePackets 60 0 (sc_mkUser 0))))"
    by (simp add: sc_MAX_QUEUE_SIZE_def)
  note b = generatePackets_bounded[where u = "sc_generatePackets 60 0 (sc_mkUser 0)" and t = 0 and i = 60]
  from b full drp have again: "sc_generateStep 0 60 (sc_generatePackets 60 0 (sc_mkUser 0))
       = (sc_generatePackets 60 0 (sc_mkUser 0))\<lparr>sc_droppedPackets := 11\<rparr>"
    by simp
  have mem: "sc_mkUser 0 \<in> set (sc_users (sc_mkWiFiSimulation 1))"
    by (simp add: sc_mkWiFiSimulation_def)
  have mem': "(sc_generatePackets 60 0 (sc_mkUser 0)) \<in> set (sc_users (sc_prepared 60 (sc_mkWiFiSimulation 1)))"
    by (simp add: sc_prepared_def sc_mkWiFiSimulation_def)
  from a mem' have lim: "int (length (sc_packetQueue (sc_generatePackets 60 0 (sc_mkUser 0)))) \<le> sc_MAX_QUEUE_SIZE"
    by blast
  from h0(1) len drp full again one mem mem' lim show ?thesis by (intro conjI)
qed

section \<open>Claim C7: the power-attenuation factor\<close>

text \<open>
  \<open>calculatePowerFactor\<close> applies the formula and nothing else: there is no clamping. A
  user at 2000 metres gets the factor \<open>-1/2\<close>, below \<open>MIN_POWER\<close>.
\<close>

theorem ms_powerFactor_unclamped:
  "ms_calculatePowerFactor (ms_mkUser 0 2000) = - (1 / 2)
   \<and> ms_calculatePowerFactor (ms_mkUser 0 2000) < ms_MIN_POWER"
  by (simp add: ms_calculatePowerFactor_def ms_mkUser_def ms_consts)

text \<open>
  Claim C7, as amended: for every user the factor equals
  \<open>MAX_POWER - (distance / MAX_DISTANCE) * (MAX_POWER - MIN_POWER)\<close>; it lies within
  \<open>[MIN_POWER, MAX_POWER]\<close> whenever the distance lies within \<open>[0, MAX_DISTANCE]\<close>, and
  every user created by the constructor of the simulation (distance \<open>rand() % 1001\<close>)
  has such a distance.
\<close>

theorem ms_powerFactor_in_range:
  "ms_calculatePowerFactor u =
     ms_MAX_POWER - (ms_distanceFromAP u / ms_MAX_DISTANCE) * (ms_MAX_POWER - ms_MIN_POWER)
   \<and> (0 \<le> ms_distanceFromAP u \<and> ms_distanceFromAP u \<le> ms_MAX_DISTANCE \<longrightarrow>
        ms_MIN_POWER \<le> ms_calculatePowerFactor u \<and> ms_calculatePowerFactor u \<le> ms_MAX_POWER)
   \<and> (u \<in> set (ms_users (ms_mkWiFiSimulation rands userCount)) \<longrightarrow>
        0 \<le> ms_distanceFromAP u \<and> ms_distanceFromAP u \<le> ms_MAX_DISTANCE)"
proof (intro conjI impI)
  show "ms_calculatePowerFactor u =
     ms_MAX_POWER - (ms_distanceFromAP u / ms_MAX_DISTANCE) * (ms_MAX_POWER - ms_MIN_POWER)"
    by (simp add: ms_calculatePowerFactor_def)
next
  assume r: "0 \<le> ms_distanceFromAP u \<and> ms_distanceFromAP u \<le> ms_MAX_DISTANCE"
  then show "ms_MIN_POWER \<le> ms_calculatePowerFactor u"
    by (simp add: ms_calculatePowerFactor_def ms_consts)
  from r show "ms_calculatePowerFactor u \<le> ms_MAX_POWER"
    by (simp add: ms_calculatePowerFactor_def ms_consts)
next
  assume "u \<in> set (ms_users (ms_mkWiFiSimulation rands userCount))"
  then show "0 \<le> ms_distanceFromAP u" "ms_distanceFromAP u \<le> ms_MAX_DISTANCE"
    using ms_mkWiFiSimulation_distance by blast+
qed

theorem ms_powerFactor_in_range_witness:
  "ms_mkUser 0 250 \<in> set (ms_users (ms_mkWiFiSimulation (\<lambda>i. 250) 1))
   \<and> 0 \<le> ms_distanceFromAP (ms_mkUser 0 250) \<and> ms_distanceFromAP (ms_mkUser 0 250) \<le> ms_MAX_DISTANCE
   \<and> ms_calculatePowerFactor (ms_mkUser 0 250) = 5 / 4
   \<and> ms_MIN_POWER \<le> ms_calculatePowerFactor (ms_mkUser 0 250)
   \<and> ms_calculatePowerFactor (ms_mkUser 0 250) \<le> ms_MAX_POWER"
proof -
  have m: "ms_mkUser 0 250 \<in> set (ms_users (ms_mkWiFiSimulation (\<lambda>i. 250) 1))"
    by (simp add: ms_mkWiFiSimulation_def)
  have d: "0 \<le> ms_distanceFromAP (ms_mkUser 0 250) \<and> ms_distanceFromAP (ms_mkUser 0 250) \<le> ms_MAX_DISTANCE"
    by (simp add: ms_mkUser_def ms_MAX_DISTANCE_def)
  have v: "ms_MAX_POWER - (ms_distanceFromAP (ms_mkUser 0 250) / ms_MAX_DISTANCE) * (ms_MAX_POWER - ms_MIN_POWER) = 5 / 4"
    by (simp add: ms_mkUser_def ms_consts)
  from ms_powerFactor_in_range[of "ms_mkUser 0 250" "\<lambda>i. 250" 1] m d v show ?thesis
    by simp
qed

section \<open>Claim C8: two runs of the same configuration\<close>

text \<open>
  Inputs for the runs below. \<open>ct_randValues\<close> gives the first six values of \<open>rand()\<close> in a
  process that never calls \<open>srand\<close> (glibc; the program never seeds it).
  \<open>ct_generatorValues\<close> stands for the first three draws of a default-constructed
  \<open>std::default_random_engine\<close> through \<open>uniform_real_distribution\<close>, about 0.1315, 0.4587
  and 0.2190 of the range, as 32-bit fractions.
\<close>

definition ct_randValues :: "nat \<Rightarrow> nat" where
  "ct_randValues k =
     (if k < 6 then [1804289383, 846930886, 1681692777, 1714636915, 1957747793, 424238335] ! k else 0)"

definition ct_generatorValues :: "nat \<Rightarrow> nat" where
  "ct_generatorValues k = (if k < 3 then [564950497, 1969887317, 940422544] ! k else 0)"

lemma ct_first_call:
  "ct_simulateWiFi ct_randValues ct_generatorValues 0 2 1
     = Some \<lparr>ct_shownThroughputMbps = 439804651110400 / 3369153695453,
             ct_shownAverageLatencyMs = 3369153695453 / 53687091200000,
             ct_shownMaximumLatencyMs = 3369153695453 / 53687091200000, ct_randCallsAfter = 2\<rparr>"
proof -
  have w: "ct_whileTrue ct_randValues ct_generatorValues 2 0
      \<lparr>ct_latencies = [], ct_total_time = 0, ct_randCalls = 0, ct_draws = 0\<rparr>
    = Some \<lparr>ct_latencies = [3369153695453 / 53687091200000000],
            ct_total_time = 3369153695453 / 53687091200000000, ct_randCalls = 2, ct_draws = 1\<rparr>"
    apply (subst ct_whileTrue.simps)
    apply (simp add: ct_attempt_def ct_channelFree_def ct_rand_def ct_RAND_MAX_def ct_randValues_def
        ct_generatorValues_def ct_distribution_def ct_MAX_BACKOFF_def Let_def)
    apply (subst ct_whileTrue.simps)
    apply (simp add: ct_attempt_def ct_channelFree_def ct_rand_def ct_RAND_MAX_def ct_randValues_def
        ct_generatorValues_def ct_distribution_def ct_MAX_BACKOFF_def Let_def
        ct_TRANSMISSION_TIME_def ct_DATA_RATE_def ct_PACKET_SIZE_def ct_BANDWIDTH_def
        ct_MODULATION_def ct_CODING_RATE_def)
    done
  show ?thesis
    by (simp add: ct_simulateWiFi_def w ct_throughput_def ct_PACKET_SIZE_def)
qed

lemmas ct_eval = ct_attempt_def ct_channelFree_def ct_rand_def ct_RAND_MAX_def ct_randValues_def
  ct_generatorValues_def ct_distribution_def ct_MAX_BACKOFF_def Let_def
  ct_TRANSMISSION_TIME_def ct_DATA_RATE_def ct_PACKET_SIZE_def ct_BANDWIDTH_def
  ct_MODULATION_def ct_CODING_RATE_def

lemma ct_second_call:
  "ct_simulateWiFi ct_randValues ct_generatorValues 2 2 1
     = Some \<lparr>ct_shownThroughputMbps = 219902325555200 / 1866471214039,
             ct_shownAverageLatencyMs = 1866471214039 / 26843545600000,
             ct_shownMaximumLatencyMs = 1866471214039 / 26843545600000, ct_randCallsAfter = 6\<rparr>"
proof -
  have w: "ct_whileTrue ct_randValues ct_generatorValues 2 0
      \<lparr>ct_latencies = [], ct_total_time = 0, ct_randCalls = 2, ct_draws = 0\<rparr>
    = Some \<lparr>ct_latencies = [1866471214039 / 26843545600000000],
            ct_total_time = 1866471214039 / 26843545600000000, ct_randCalls = 6, ct_draws = 3\<rparr>"
    apply (subst ct_whileTrue.simps)
    apply (simp add: ct_eval)
    apply (subst ct_whileTrue.simps)
    apply (simp add: ct_eval)
    apply (subst ct_whileTrue.simps)
    apply (simp add: ct_eval)
    apply (subst ct_whileTrue.simps)
    apply (simp add: ct_eval)
    done
  show ?thesis
    by (simp add: ct_simulateWiFi_def w ct_throughput_def ct_PACKET_SIZE_def)
qed

text \<open>
  Two calls of \<open>simulateWiFi(2, 1)\<close> in one process. The backoff generator is a local of
  the function, default-seeded at each call, so both calls have the same seed and the
  same draws; \<open>rand()\<close> goes on where the first call left it. The first call finds the
  channel free at its second test (one backoff), the second call at its fourth (three
  backoffs): the average latency shown is about 0.0628 ms, then about 0.0695 ms.
\<close>

theorem ct_second_call_differs:
  "ct_simulateWiFi ct_randValues ct_generatorValues 0 2 1
     = Some \<lparr>ct_shownThroughputMbps = 439804651110400 / 3369153695453,
             ct_shownAverageLatencyMs = 3369153695453 / 53687091200000,
             ct_shownMaximumLatencyMs = 3369153695453 / 53687091200000, ct_randCallsAfter = 2\<rparr>
   \<and> ct_simulateWiFi ct_randValues ct_generatorValues 2 2 1
     = Some \<lparr>ct_shownThroughputMbps = 219902325555200 / 1866471214039,
             ct_shownAverageLatencyMs = 1866471214039 / 26843545600000,
             ct_shownMaximumLatencyMs = 1866471214039 / 26843545600000, ct_randCallsAfter = 6\<rparr>
   \<and> map_option ct_shownAverageLatencyMs (ct_simulateWiFi ct_randValues ct_generatorValues 0 2 1)
       \<noteq> map_option ct_shownAverageLatencyMs (ct_simulateWiFi ct_randValues ct_generatorValues 2 2 1)
   \<and> map_option ct_shownMaximumLatencyMs (ct_simulateWiFi ct_randValues ct_generatorValues 0 2 1)
       \<noteq> map_option ct_shownMaximumLatencyMs (ct_simulateWiFi ct_randValues ct_generatorValues 2 2 1)"
  by (simp add: ct_first_call ct_second_call)

text \<open>
  Claim C8, as amended: for every configuration, two runs with the same seed for the
  randomized backoff that also find the same values of \<open>rand()\<close> from where they start
  (as the first runs of two executions of the program do) yield identical transmitted
  and dropped counts and identical latency statistics. In the contention variant the
  two calls then show the same throughput, average and maximum latency, and either both
  return or neither does. In the multi-stream variant two simulations built from the
  same values of \<open>rand()\<close> end in the same state, counters and latencies included,
  whatever the random device delivers to either. The sub-channel variant uses no random
  value at all.
\<close>

theorem same_start_same_statistics:
  "((\<forall>k. rnd (calls + k) = rnd' (calls' + k)) \<longrightarrow>
      map_option (\<lambda>r. (ct_shownThroughputMbps r, ct_shownAverageLatencyMs r, ct_shownMaximumLatencyMs r))
           (ct_simulateWiFi rnd gen calls users packets)
       = map_option (\<lambda>r. (ct_shownThroughputMbps r, ct_shownAverageLatencyMs r, ct_shownMaximumLatencyMs r))
           (ct_simulateWiFi rnd' gen calls' users packets))
   \<and> ((\<forall>i. rands (off + i) = rands' (off' + i)) \<longrightarrow>
        ms_runSimulation rd userCount packetsPerUser (ms_mkWiFiSimulation (\<lambda>i. rands (off + i)) userCount)
          = ms_runSimulation rd' userCount packetsPerUser (ms_mkWiFiSimulation (\<lambda>i. rands' (off' + i)) userCount))"
proof (intro conjI impI)
  assume "\<forall>k. rnd (calls + k) = rnd' (calls' + k)"
  then show "map_option (\<lambda>r. (ct_shownThroughputMbps r, ct_shownAverageLatencyMs r, ct_shownMaximumLatencyMs r))
           (ct_simulateWiFi rnd gen calls users packets)
       = map_option (\<lambda>r. (ct_shownThroughputMbps r, ct_shownAverageLatencyMs r, ct_shownMaximumLatencyMs r))
           (ct_simulateWiFi rnd' gen calls' users packets)"
    by (rule ct_simulateWiFi_same)
next
  assume "\<forall>i. rands (off + i) = rands' (off' + i)"
  then have eq: "(\<lambda>i. rands (off + i)) = (\<lambda>i. rands' (off' + i))" by auto
  let ?st = "ms_prepared packetsPerUser (ms_mkWiFiSimulation (\<lambda>i. rands' (off' + i)) userCount)"
  have "ms_findAvailableStream (ms_channel ?st) \<noteq> - 1"
    by (simp add: ms_prepared_fields ms_mkWiFiSimulation_free)
  from ms_whileLoop_free[OF this, of rd rd'] obtain st' where
    "ms_whileLoop rd ?st = Inr st'" "ms_whileLoop rd' ?st = Inr st'"
    by blast
  then show "ms_runSimulation rd userCount packetsPerUser (ms_mkWiFiSimulation (\<lambda>i. rands (off + i)) userCount)
      = ms_runSimulation rd' userCount packetsPerUser (ms_mkWiFiSimulation (\<lambda>i. rands' (off' + i)) userCount)"
    unfolding eq by (simp add: ms_runSimulation_def)
qed

theorem same_start_same_statistics_witness:
  "(\<forall>k. ct_randValues (2 + k) = ct_randValues (0 + k + 2))
   \<and> map_option (\<lambda>r. (ct_shownThroughputMbps r, ct_shownAverageLatencyMs r, ct_shownMaximumLatencyMs r))
        (ct_simulateWiFi (\<lambda>k. ct_randValues (k + 2)) ct_generatorValues 0 2 1)
       = Some (219902325555200 / 1866471214039, 1866471214039 / 26843545600000,
               1866471214039 / 26843545600000)
   \<and> ms_runSimulation (\<lambda>k. 4) 1 2 (ms_mkWiFiSimulation (\<lambda>i. 500) 1)
       = ms_runSimulation (\<lambda>k. 9) 1 2 (ms_mkWiFiSimulation (\<lambda>i. 500) 1)
   \<and> ms_transmittedPackets (ms_runSimulation (\<lambda>k. 9) 1 2 (ms_mkWiFiSimulation (\<lambda>i. 500) 1)) = 1"
proof -
  have h: "\<forall>k. ct_randValues (2 + k) = (\<lambda>k. ct_randValues (k + 2)) (0 + k)"
    by (simp add: add.commute)
  have h': "\<forall>k. ct_randValues (2 + k) = ct_randValues (0 + k + 2)"
    by (simp add: add.commute)
  have g: "\<forall>i. (\<lambda>i. 500 :: nat) (0 + i) = (\<lambda>i. 500) (3 + i)" by simp
  note t = same_start_same_statistics[where rnd = ct_randValues and calls = 2
      and rnd' = "\<lambda>k. ct_randValues (k + 2)" and calls' = 0 and gen = ct_generatorValues
      and users = 2 and packets = 1
      and rands = "\<lambda>i. 500" and off = 0 and rands' = "\<lambda>i. 500" and off' = 3
      and rd = "\<lambda>k. 4" and rd' = "\<lambda>k. 9" and userCount = 1 and packetsPerUser = 2]
  from t h have a: "map_option (\<lambda>r. (ct_shownThroughputMbps r, ct_shownAverageLatencyMs r, ct_shownMaximumLatencyMs r))
        (ct_simulateWiFi ct_randValues ct_generatorValues 2 2 1)
      = map_option (\<lambda>r. (ct_shownThroughputMbps r, ct_shownAverageLatencyMs r, ct_shownMaximumLatencyMs r))
        (ct_simulateWiFi (\<lambda>k. ct_randValues (k + 2)) ct_generatorValues 0 2 1)"
    by blast
  have a': "map_option (\<lambda>r. (ct_shownThroughputMbps r, ct_shownAverageLatencyMs r, ct_shownMaximumLatencyMs r))
        (ct_simulateWiFi (\<lambda>k. ct_randValues (k + 2)) ct_generatorValues 0 2 1)
       = Some (219902325555200 / 1866471214039, 1866471214039 / 26843545600000,
               1866471214039 / 26843545600000)"
    unfolding a[symmetric] by (simp add: ct_second_call)
  from t g have b: "ms_runSimulation (\<lambda>k. 4) 1 2 (ms_mkWiFiSimulation (\<lambda>i. 500) 1)
       = ms_runSimulation (\<lambda>k. 9) 1 2 (ms_mkWiFiSimulation (\<lambda>i. 500) 1)"
    by blast
  have c: "ms_transmittedPackets (ms_runSimulation (\<lambda>k. 9) 1 2 (ms_mkWiFiSimulation (\<lambda>i. 500) 1)) = 1"
    by (simp add: ms_oneUser_run)
  from h' a' b c show ?thesis by (intro conjI)
qed

section \<open>Claim C9: the clock never moves backwards\<close>

text \<open>
  Claim C9: in every variant the clock is non-decreasing along a run. Multi-stream: the
  body of the loop over the users (backoff wait, then transmission or drop), the whole
  loop, the acquisition loop alone and \<open>sendPacket\<close> alone (for a positive rate) leave
  the clock where it was or advance it, whether they return or throw; the users stay in
  range, and they are in range when a run starts. Sub-channel: the body of the loop over
  the sub-channels (wait for the arrival, then timeout drop or transmission) and the
  whole loop do the same and keep the bandwidths positive, as they are when a run starts.
  Contention: every iteration of \<open>while (true)\<close> adds a transmission time or a backoff,
  neither negative, and so does the loop over the packets.
\<close>

theorem clock_never_rewinds:
  "(ms_inRange st \<and> i < length (ms_users st) \<longrightarrow>
      (case ms_serveUser rd i st of
         Inl (ex, stE) \<Rightarrow> ms_currentTime st \<le> ms_currentTime stE
       | Inr st' \<Rightarrow> ms_currentTime st \<le> ms_currentTime st' \<and> ms_inRange st'))
   \<and> (ms_inRange st \<longrightarrow>
      (case ms_whileLoop rd st of
         Inl (ex, stE) \<Rightarrow> ms_currentTime st \<le> ms_currentTime stE
       | Inr st' \<Rightarrow> ms_currentTime st \<le> ms_currentTime st'))
   \<and> ms_inRange (ms_prepared packetsPerUser (ms_mkWiFiSimulation rands userCount))
   \<and> (case ms_awaitStream rd ch k t of Inl (k', t') \<Rightarrow> t \<le> t' | Inr (idx', k', t') \<Rightarrow> t \<le> t')
   \<and> (0 < rate \<longrightarrow> t \<le> snd (snd (snd (ms_sendPacket ch pkt t rate idx))))
   \<and> (sc_sound sst \<and> j < length (sc_subChannels sst) \<longrightarrow>
      (case sc_serveSubChannel j sst of
         Inl e \<Rightarrow> True
       | Inr sst' \<Rightarrow> sc_currentTime sst \<le> sc_currentTime sst' \<and> sc_sound sst'))
   \<and> (sc_sound sst \<longrightarrow>
      (case sc_whileLoop sst of
         Inl e \<Rightarrow> True
       | Inr sst' \<Rightarrow> sc_currentTime sst \<le> sc_currentTime sst'))
   \<and> sc_sound (sc_prepared packetsPerUser' (sc_mkWiFiSimulation numUsers))
   \<and> ct_total_time s \<le> ct_total_time (snd (snd (ct_attempt rnd gen users latency s)))
   \<and> (case ct_forPackets rnd gen users n s of
         None \<Rightarrow> True
       | Some s' \<Rightarrow> ct_total_time s \<le> ct_total_time s')"
proof (intro conjI impI)
  assume a: "ms_inRange st \<and> i < length (ms_users st)"
  show "case ms_serveUser rd i st of
         Inl (ex, stE) \<Rightarrow> ms_currentTime st \<le> ms_currentTime stE
       | Inr st' \<Rightarrow> ms_currentTime st \<le> ms_currentTime st' \<and> ms_inRange st'"
  proof (cases "ms_serveUser rd i st")
    case (Inl e)
    obtain ex stE where e: "e = (ex, stE)" by (cases e)
    from ms_serveUser_thrown[OF Inl[unfolded e]] Inl e show ?thesis by simp
  next
    case (Inr st')
    from ms_serveUser_returned[OF Inr] a Inr show ?thesis by simp
  qed
next
  assume a: "ms_inRange st"
  show "case ms_whileLoop rd st of
         Inl (ex, stE) \<Rightarrow> ms_currentTime st \<le> ms_currentTime stE
       | Inr st' \<Rightarrow> ms_currentTime st \<le> ms_currentTime st'"
  proof (cases "ms_whileLoop rd st")
    case (Inl e)
    obtain ex stE where e: "e = (ex, stE)" by (cases e)
    from ms_whileLoop_clock[OF a, of rd undefined ex stE] Inl e show ?thesis by simp
  next
    case (Inr st')
    from ms_whileLoop_clock[OF a, of rd st'] Inr show ?thesis by simp
  qed
next
  show "ms_inRange (ms_prepared packetsPerUser (ms_mkWiFiSimulation rands userCount))"
    by (rule ms_prepared_inRange[OF ms_mkWiFiSimulation_inRange])
next
  show "case ms_awaitStream rd ch k t of Inl (k', t') \<Rightarrow> t \<le> t' | Inr (idx', k', t') \<Rightarrow> t \<le> t'"
  proof (cases "ms_awaitStream rd ch k t")
    case (Inl e)
    obtain k' t' where e: "e = (k', t')" by (cases e)
    from ms_awaitStream_mono[of rd ch k t k' t'] Inl e show ?thesis by simp
  next
    case (Inr r)
    obtain idx' k' t' where r: "r = (idx', k', t')" by (cases r)
    from ms_awaitStream_mono[of rd ch k t k' t' idx'] Inr r show ?thesis by simp
  qed
next
  assume "0 < rate"
  then show "t \<le> snd (snd (snd (ms_sendPacket ch pkt t rate idx)))"
    by (rule ms_sendPacket_clock)
next
  assume a: "sc_sound sst \<and> j < length (sc_subChannels sst)"
  show "case sc_serveSubChannel j sst of
         Inl e \<Rightarrow> True
       | Inr sst' \<Rightarrow> sc_currentTime sst \<le> sc_currentTime sst' \<and> sc_sound sst'"
  proof (cases "sc_serveSubChannel j sst")
    case (Inl e)
    then show ?thesis by simp
  next
    case (Inr sst')
    from sc_serve_sound[OF Inr] a Inr show ?thesis by simp
  qed
next
  assume a: "sc_sound sst"
  show "case sc_whileLoop sst of
         Inl e \<Rightarrow> True
       | Inr sst' \<Rightarrow> sc_currentTime sst \<le> sc_currentTime sst'"
  proof (cases "sc_whileLoop sst")
    case (Inl e)
    then show ?thesis by simp
  next
    case (Inr sst')
    from sc_whileLoop_sound[OF Inr a] Inr show ?thesis by simp
  qed
next
  show "sc_sound (sc_prepared packetsPerUser' (sc_mkWiFiSimulation numUsers))"
    by (rule sc_prepared_sound)
next
  show "ct_total_time s \<le> ct_total_time (snd (snd (ct_attempt rnd gen users latency s)))"
    by (rule ct_attempt_clock)
next
  show "case ct_forPackets rnd gen users n s of
         None \<Rightarrow> True
       | Some s' \<Rightarrow> ct_total_time s \<le> ct_total_time s'"
    using ct_forPackets_clock[of rnd gen users n s] by (simp split: option.splits)
qed


theorem clock_never_rewinds_witness:
  "ms_inRange ms_oneUserStart \<and> 0 < length (ms_users ms_oneUserStart)
   \<and> ms_serveUser (\<lambda>k. 0) 0 ms_oneUserStart = Inr ms_oneUserMid
   \<and> ms_currentTime ms_oneUserStart \<le> ms_currentTime ms_oneUserMid \<and> ms_inRange ms_oneUserMid
   \<and> sc_sound sc_oneUserStart \<and> 0 < length (sc_subChannels sc_oneUserStart)
   \<and> sc_whileLoop sc_oneUserStart = Inr sc_oneUserEnd
   \<and> sc_currentTime sc_oneUserStart \<le> sc_currentTime sc_oneUserEnd
   \<and> (0::real) < 1
   \<and> 0 \<le> snd (snd (snd (ms_sendPacket [False, False, False, False] (ms_mkPacket 0 0) 0 1 0)))
   \<and> ct_total_time \<lparr>ct_latencies = [], ct_total_time = 0, ct_randCalls = 0, ct_draws = 0\<rparr>
       \<le> ct_total_time (snd (snd (ct_attempt (\<lambda>k. 0) (\<lambda>k. 0) 1 0
             \<lparr>ct_latencies = [], ct_total_time = 0, ct_randCalls = 0, ct_draws = 0\<rparr>)))"
proof -
  have h1: "ms_inRange ms_oneUserStart \<and> 0 < length (ms_users ms_oneUserStart)"
    by (simp add: ms_inRange_def ms_oneUserStart_def ms_MAX_DISTANCE_def)
  have h2: "sc_sound sc_oneUserStart \<and> 0 < length (sc_subChannels sc_oneUserStart)"
    by (simp add: sc_sound_def sc_oneUserStart_def)
  have h3: "(0::real) < 1" by simp
  note t = clock_never_rewinds[where st = ms_oneUserStart and i = 0 and rd = "\<lambda>k. 0"
      and ch = "[False, False, False, False]" and t = 0 and rate = 1 and pkt = "ms_mkPacket 0 0"
      and idx = 0 and sst = sc_oneUserStart and j = 0
      and s = "\<lparr>ct_latencies = [], ct_total_time = 0, ct_randCalls = 0, ct_draws = 0\<rparr>"
      and rnd = "\<lambda>k. 0" and gen = "\<lambda>k. 0" and users = 1 and latency = 0]
  from t h1 have a: "ms_currentTime ms_oneUserStart \<le> ms_currentTime ms_oneUserMid \<and> ms_inRange ms_oneUserMid"
    by (simp add: ms_oneUser_first)
  from t h2 have b: "sc_currentTime sc_oneUserStart \<le> sc_currentTime sc_oneUserEnd"
    by (simp add: sc_oneUser_loop)
  from t h3 have c: "0 \<le> snd (snd (snd (ms_sendPacket [False, False, False, False] (ms_mkPacket 0 0) 0 1 0)))"
    by blast
  from t have d: "ct_total_time \<lparr>ct_latencies = [], ct_total_time = 0, ct_randCalls = 0, ct_draws = 0\<rparr>
       \<le> ct_total_time (snd (snd (ct_attempt (\<lambda>k. 0) (\<lambda>k. 0) 1 0
             \<lparr>ct_latencies = [], ct_total_time = 0, ct_randCalls = 0, ct_draws = 0\<rparr>)))"
    by blast
  from h1 h2 h3 a b c d ms_oneUser_first[of "\<lambda>k. 0"] sc_oneUser_loop show ?thesis
    by (intro conjI) simp_all
qed

section \<open>Claim C10: packets with a non-positive latency are not counted\<close>

text \<open>
  Claim C10: in the multi-stream variant, when \<open>sendPacket\<close> returns \<open>true\<close> and the
  latency \<open>transmissionEnd - arrivalTimestamp\<close> is not strictly positive, the packet is
  removed from its queue and neither \<open>transmittedPackets\<close> nor \<open>droppedPackets\<close> changes.
  Consequently the two counters can add up to less than the number of packets generated:
  one user with two packets ends with an empty queue and a sum of 1.
\<close>

theorem ms_nonpositive_latency_vanishes:
  "(i < length (ms_users st) \<and> ms_hasPackets (ms_users st ! i)
      \<and> ms_awaitStream rd (ms_channel st) (ms_entropyUsed st) (ms_currentTime st) = Inr (streamIdx, k, t)
      \<and> ms_sendPacket (ms_channel st) (hd (ms_packetQueue (ms_users st ! i))) t
           (ms_calculateTransmissionRate ms_MAX_STREAMS (ms_calculatePowerFactor (ms_users st ! i)))
           streamIdx = (True, ch, packet', t')
      \<and> \<not> ms_transmissionEnd packet' - ms_arrivalTimestamp packet' > 0
    \<longrightarrow> (\<exists>st'. ms_serveUser rd i st = Inr st'
          \<and> ms_packetQueue (ms_users st' ! i) = tl (ms_packetQueue (ms_users st ! i))
          \<and> ms_transmittedPackets st' = ms_transmittedPackets st
          \<and> ms_droppedPackets st' = ms_droppedPackets st))
   \<and> ms_queued (ms_prepared 2 (ms_mkWiFiSimulation (\<lambda>i. 500) 1)) = 2
   \<and> ms_queued (ms_runSimulation rd 1 2 (ms_mkWiFiSimulation (\<lambda>i. 500) 1)) = 0
   \<and> ms_transmittedPackets (ms_runSimulation rd 1 2 (ms_mkWiFiSimulation (\<lambda>i. 500) 1))
       + ms_droppedPackets (ms_runSimulation rd 1 2 (ms_mkWiFiSimulation (\<lambda>i. 500) 1)) = 1"
proof (intro conjI impI)
  assume a: "i < length (ms_users st) \<and> ms_hasPackets (ms_users st ! i)
      \<and> ms_awaitStream rd (ms_channel st) (ms_entropyUsed st) (ms_currentTime st) = Inr (streamIdx, k, t)
      \<and> ms_sendPacket (ms_channel st) (hd (ms_packetQueue (ms_users st ! i))) t
           (ms_calculateTransmissionRate ms_MAX_STREAMS (ms_calculatePowerFactor (ms_users st ! i)))
           streamIdx = (True, ch, packet', t')
      \<and> \<not> ms_transmissionEnd packet' - ms_arrivalTimestamp packet' > 0"
  then show "\<exists>st'. ms_serveUser rd i st = Inr st'
          \<and> ms_packetQueue (ms_users st' ! i) = tl (ms_packetQueue (ms_users st ! i))
          \<and> ms_transmittedPackets st' = ms_transmittedPackets st
          \<and> ms_droppedPackets st' = ms_droppedPackets st"
    by (simp add: ms_serveUser_def Let_def ms_removePacket_def)
next
  show "ms_queued (ms_prepared 2 (ms_mkWiFiSimulation (\<lambda>i. 500) 1)) = 2"
    by (simp add: ms_oneUser_prepared ms_oneUserStart_def ms_queued_def)
next
  show "ms_queued (ms_runSimulation rd 1 2 (ms_mkWiFiSimulation (\<lambda>i. 500) 1)) = 0"
    by (simp add: ms_oneUser_run ms_queued_def)
next
  show "ms_transmittedPackets (ms_runSimulation rd 1 2 (ms_mkWiFiSimulation (\<lambda>i. 500) 1))
       + ms_droppedPackets (ms_runSimulation rd 1 2 (ms_mkWiFiSimulation (\<lambda>i. 500) 1)) = 1"
    by (simp add: ms_oneUser_run)
qed

theorem ms_nonpositive_latency_vanishes_witness:
  "ms_serveUser (\<lambda>k. 0) 0 ms_oneUserStart = Inr ms_oneUserMid
   \<and> ms_sendPacket (ms_channel ms_oneUserMid) (hd (ms_packetQueue (ms_users ms_oneUserMid ! 0))) (96 / 390625)
        (ms_calculateTransmissionRate ms_MAX_STREAMS (ms_calculatePowerFactor (ms_users ms_oneUserMid ! 0))) 0
      = (True, [False, False, False, False],
         \<lparr>ms_packetID = 1, ms_arrivalTimestamp = 1 / 100,
            ms_transmissionStart = 96 / 390625, ms_transmissionEnd = 192 / 390625\<rparr>, 192 / 390625)
   \<and> (\<exists>st'. ms_serveUser (\<lambda>k. 0) 0 ms_oneUserMid = Inr st'
          \<and> ms_packetQueue (ms_users st' ! 0) = []
          \<and> ms_transmittedPackets st' = 1 \<and> ms_droppedPackets st' = 0)"
proof -
  have h1: "0 < length (ms_users ms_oneUserMid) \<and> ms_hasPackets (ms_users ms_oneUserMid ! 0)"
    by (simp add: ms_oneUserMid_def ms_hasPackets_def)
  have h2: "ms_awaitStream (\<lambda>k. 0) (ms_channel ms_oneUserMid) (ms_entropyUsed ms_oneUserMid)
              (ms_currentTime ms_oneUserMid) = Inr (0, 0, 96 / 390625)"
    by (simp add: ms_oneUserMid_def ms_awaitStream_free ms_findAvailableStream_def)
  have h3: "ms_sendPacket (ms_channel ms_oneUserMid) (hd (ms_packetQueue (ms_users ms_oneUserMid ! 0))) (96 / 390625)
        (ms_calculateTransmissionRate ms_MAX_STREAMS (ms_calculatePowerFactor (ms_users ms_oneUserMid ! 0))) 0
      = (True, [False, False, False, False],
         \<lparr>ms_packetID = 1, ms_arrivalTimestamp = 1 / 100,
            ms_transmissionStart = 96 / 390625, ms_transmissionEnd = 192 / 390625\<rparr>, 192 / 390625)"
    by (simp add: ms_oneUserMid_def ms_sendPacket_def ms_calculateTransmissionRate_def
        ms_calculatePowerFactor_def ms_consts ms_reserveStream_def ms_releaseStream_def ms_mkPacket_def)
  have h4: "\<not> ms_transmissionEnd \<lparr>ms_packetID = 1, ms_arrivalTimestamp = 1 / 100,
            ms_transmissionStart = 96 / 390625, ms_transmissionEnd = 192 / 390625\<rparr>
          - ms_arrivalTimestamp \<lparr>ms_packetID = 1, ms_arrivalTimestamp = 1 / 100,
            ms_transmissionStart = 96 / 390625, ms_transmissionEnd = 192 / 390625\<rparr> > 0"
    by simp
  have q: "tl (ms_packetQueue (ms_users ms_oneUserMid ! 0)) = []"
      "ms_transmittedPackets ms_oneUserMid = 1" "ms_droppedPackets ms_oneUserMid = 0"
    by (simp_all add: ms_oneUserMid_def)
  from ms_nonpositive_latency_vanishes[of 0 ms_oneUserMid "\<lambda>k. 0" 0 0 "96 / 390625"
        "[False, False, False, False]"
        "\<lparr>ms_packetID = 1, ms_arrivalTimestamp = 1 / 100,
            ms_transmissionStart = 96 / 390625, ms_transmissionEnd = 192 / 390625\<rparr>" "192 / 390625"]
    h1 h2 h3 h4
  have "\<exists>st'. ms_serveUser (\<lambda>k. 0) 0 ms_oneUserMid = Inr st'
          \<and> ms_packetQueue (ms_users st' ! 0) = tl (ms_packetQueue (ms_users ms_oneUserMid ! 0))
          \<and> ms_transmittedPackets st' = ms_transmittedPackets ms_oneUserMid
          \<and> ms_droppedPackets st' = ms_droppedPackets ms_oneUserMid"
    by blast
  with q h3 ms_oneUser_first[of "\<lambda>k. 0"] show ?thesis by simp
qed

end
